theory Spec2Isabelle
  imports Complex_Main "HOL-Library.Sublist"
begin

section \<open>JavaScript strings\<close>

text \<open>
  A JavaScript string is a sequence of UTF-16 code units. A code unit is modelled as a
  natural number (below 65536 for every string the program can hold); \<open>js\<close> turns an
  ASCII literal into such a sequence.
\<close>

type_synonym jsstring = "nat list"

definition js :: "string \<Rightarrow> jsstring" where
  "js s = map (of_char :: char \<Rightarrow> nat) s"

text \<open>\<^verbatim>\<open>String.prototype.startsWith\<close>.\<close>

definition startsWith :: "jsstring \<Rightarrow> jsstring \<Rightarrow> bool" where
  "startsWith s p = (take (length p) s = p)"

text \<open>
  The characters matched by \<^verbatim>\<open>\s\<close> in a regular expression and removed by
  \<^verbatim>\<open>String.prototype.trim\<close>: ECMAScript's WhiteSpace and LineTerminator.
\<close>

definition isLineTerminator :: "nat \<Rightarrow> bool" where
  "isLineTerminator c = (c = 0x0A \<or> c = 0x0D \<or> c = 0x2028 \<or> c = 0x2029)"

definition isWhiteSpace :: "nat \<Rightarrow> bool" where
  "isWhiteSpace c =
     (c = 0x09 \<or> c = 0x0B \<or> c = 0x0C \<or> c = 0x20 \<or> c = 0xA0 \<or> c = 0x1680 \<or>
      (0x2000 \<le> c \<and> c \<le> 0x200A) \<or> c = 0x202F \<or> c = 0x205F \<or> c = 0x3000 \<or>
      c = 0xFEFF \<or> isLineTerminator c)"

definition trim :: "jsstring \<Rightarrow> jsstring" where
  "trim s = rev (dropWhile isWhiteSpace (rev (dropWhile isWhiteSpace s)))"

text \<open>
  Case folding of a regular expression with the \<^verbatim>\<open>i\<close> flag and without the
  \<^verbatim>\<open>u\<close> flag (ECMAScript's Canonicalize): a code unit is replaced by its upper
  case, except that a code unit from 128 on is never mapped below 128. Two code units match
  when their images agree. Every pattern character of this program is ASCII, so only the
  ASCII part of the mapping decides a match: a code unit from 128 on keeps an image from
  128 on, whatever it is.
\<close>

definition canonicalize :: "nat \<Rightarrow> nat" where
  "canonicalize c = (if 0x61 \<le> c \<and> c \<le> 0x7A then c - 0x20 else c)"

text \<open>
  Matching a literal (of ASCII characters) at the start of the input under the
  \<^verbatim>\<open>i\<close> flag: the rest of the input behind the literal, or no match.
\<close>

fun matchLiteralCI :: "jsstring \<Rightarrow> jsstring \<Rightarrow> jsstring option" where
  "matchLiteralCI [] s = Some s"
| "matchLiteralCI (p # ps) [] = None"
| "matchLiteralCI (p # ps) (c # cs) =
     (if canonicalize c = canonicalize p then matchLiteralCI ps cs else None)"

text \<open>The same without the flag.\<close>

fun matchLiteral :: "jsstring \<Rightarrow> jsstring \<Rightarrow> jsstring option" where
  "matchLiteral [] s = Some s"
| "matchLiteral (p # ps) [] = None"
| "matchLiteral (p # ps) (c # cs) = (if c = p then matchLiteral ps cs else None)"

text \<open>
  \<^verbatim>\<open>String.prototype.match\<close> with a pattern that is not global tries the pattern
  at every start index from the left, the end of the string included, and stops at the
  first index where it matches.
\<close>

fun firstMatch :: "(jsstring \<Rightarrow> 'a option) \<Rightarrow> jsstring \<Rightarrow> 'a option" where
  "firstMatch m [] = m []"
| "firstMatch m (c # cs) =
     (case m (c # cs) of Some r \<Rightarrow> Some r | None \<Rightarrow> firstMatch m cs)"

section \<open>Percent decoding\<close>

text \<open>
  The exceptions of the program: a request that fails (network error or a status outside
  2xx), \<^verbatim>\<open>decodeURIComponent\<close> on a malformed escape, the \<^verbatim>\<open>URL\<close>
  constructor on an invalid URL, a pipeline that rejects, a file system call that throws,
  and a prompt that rejects.
\<close>

datatype error = FetchError | URIError | TypeError | PipelineError | IOError | PromptError

definition hexValue :: "nat \<Rightarrow> nat option" where
  "hexValue c =
     (if 0x30 \<le> c \<and> c \<le> 0x39 then Some (c - 0x30)
      else if 0x41 \<le> c \<and> c \<le> 0x46 then Some (c - 0x41 + 10)
      else if 0x61 \<le> c \<and> c \<le> 0x66 then Some (c - 0x61 + 10)
      else None)"

text \<open>
  One escape \<^verbatim>\<open>%XY\<close> at the start of the input: the byte and the rest, or nothing
  when the input does not start with a percent sign and two hexadecimal digits.
\<close>

fun escapedByte :: "jsstring \<Rightarrow> (nat \<times> jsstring) option" where
  "escapedByte (p # h # l # rest) =
     (if p = 0x25 then
        (case (hexValue h, hexValue l) of
           (Some a, Some b) \<Rightarrow> Some (16 * a + b, rest)
         | _ \<Rightarrow> None)
      else None)"
| "escapedByte _ = None"

text \<open>
  The \<open>n\<close> continuation bytes of a UTF-8 sequence, each an escape of the form
  \<^verbatim>\<open>10xxxxxx\<close>, folded into the code point begun by the leading byte.
\<close>

fun continuation :: "nat \<Rightarrow> nat \<Rightarrow> jsstring \<Rightarrow> (nat \<times> jsstring) option" where
  "continuation 0 v s = Some (v, s)"
| "continuation (Suc n) v s =
     (case escapedByte s of
        None \<Rightarrow> None
      | Some (b, rest) \<Rightarrow>
          if 0x80 \<le> b \<and> b < 0xC0 then continuation n (64 * v + (b - 0x80)) rest else None)"

text \<open>The UTF-16 code units of a code point.\<close>

definition utf16 :: "nat \<Rightarrow> jsstring" where
  "utf16 cp =
     (if cp < 0x10000 then [cp]
      else [0xD800 + (cp - 0x10000) div 0x400, 0xDC00 + (cp - 0x10000) mod 0x400])"

text \<open>
  The escape sequence at the start of the input (which starts with a percent sign):
  the code units it stands for and the rest of the input. ECMAScript's Decode raises
  URIError when the escape is cut short or is not hexadecimal, when the leading byte is a
  continuation byte or announces more than four bytes, when a continuation byte is missing,
  and when the bytes are not the UTF-8 encoding of a code point (an overlong form, a
  surrogate, a value past 0x10FFFF).
\<close>

definition decodeEscape :: "jsstring \<Rightarrow> (jsstring \<times> jsstring) option" where
  "decodeEscape s =
     (case escapedByte s of
        None \<Rightarrow> None
      | Some (b, rest) \<Rightarrow>
          if b < 0x80 then Some ([b], rest)
          else if b < 0xC0 then None
          else if b < 0xE0 then
            (case continuation (Suc 0) (b - 0xC0) rest of
               None \<Rightarrow> None
             | Some (cp, rest') \<Rightarrow> if 0x80 \<le> cp then Some (utf16 cp, rest') else None)
          else if b < 0xF0 then
            (case continuation (Suc (Suc 0)) (b - 0xE0) rest of
               None \<Rightarrow> None
             | Some (cp, rest') \<Rightarrow>
                 if 0x800 \<le> cp \<and> \<not> (0xD800 \<le> cp \<and> cp < 0xE000)
                 then Some (utf16 cp, rest') else None)
          else if b < 0xF8 then
            (case continuation (Suc (Suc (Suc 0))) (b - 0xF0) rest of
               None \<Rightarrow> None
             | Some (cp, rest') \<Rightarrow>
                 if 0x10000 \<le> cp \<and> cp < 0x110000 then Some (utf16 cp, rest') else None)
          else None)"

lemma escapedByte_shorter: "escapedByte s = Some (b, rest) \<Longrightarrow> length rest < length s"
  by (induction s rule: escapedByte.induct) (auto split: if_splits option.splits)

lemma continuation_shorter: "continuation n v s = Some (cp, rest) \<Longrightarrow> length rest \<le> length s"
proof (induction n arbitrary: v s)
  case 0
  then show ?case by simp
next
  case (Suc n)
  then show ?case
    by (fastforce split: option.splits if_splits dest: escapedByte_shorter)
qed

lemma decodeEscape_shorter: "decodeEscape s = Some (u, rest) \<Longrightarrow> length rest < length s"
  unfolding decodeEscape_def
  by (auto split: option.splits if_splits
      dest!: escapedByte_shorter continuation_shorter)

text \<open>
  \<^verbatim>\<open>decodeURIComponent\<close>: every code unit but the percent sign stands for itself;
  a percent sign starts an escape sequence. \<open>Inl URIError\<close> is the exception.
\<close>

function decodeURIComponent :: "jsstring \<Rightarrow> error + jsstring" where
  "decodeURIComponent [] = Inr []"
| "decodeURIComponent (c # cs) =
     (if c = 0x25 then
        (case decodeEscape (c # cs) of
           None \<Rightarrow> Inl URIError
         | Some (u, rest) \<Rightarrow>
             (case decodeURIComponent rest of Inl e \<Rightarrow> Inl e | Inr t \<Rightarrow> Inr (u @ t)))
      else
        (case decodeURIComponent cs of Inl e \<Rightarrow> Inl e | Inr t \<Rightarrow> Inr (c # t)))"
  by pat_completeness auto
termination
  by (relation "measure length") (auto dest: decodeEscape_shorter)

section \<open>Filename resolution\<close>

text \<open>
  The first pattern of \<^verbatim>\<open>extractFilenameFromContentDisposition\<close>,
  \<^verbatim>\<open>/filename\*=UTF-8''([^;,\s]+)/i\<close>, tried at the start of the input: the
  literal, then the longest run, not empty, of code units other than semicolon, comma and
  white space. The run is greedy and the pattern ends with it, so group 1 is the whole run.
\<close>

definition utf8Value :: "nat \<Rightarrow> bool" where
  "utf8Value c = (c \<noteq> 0x3B \<and> c \<noteq> 0x2C \<and> \<not> isWhiteSpace c)"

definition utf8MatchAt :: "jsstring \<Rightarrow> jsstring option" where
  "utf8MatchAt s =
     (case matchLiteralCI (js ''filename*=UTF-8'' @ [0x27, 0x27]) s of
        None \<Rightarrow> None
      | Some rest \<Rightarrow>
          (let v = takeWhile utf8Value rest in if v = [] then None else Some v))"

text \<open>
  The second pattern, \<^verbatim>\<open>/filename[^;=\n]*=((['"]).*?\2|[^;\n]*)/i\<close>, tried at
  the start of the input. After the literal, the class \<^verbatim>\<open>[^;=\n]*\<close> cannot take
  an equals sign, so it runs to the first semicolon, equals sign or line feed, which has to
  be the equals sign. Group 1 is then the first alternative that matches: a quote,
  the shortest run of characters that are not line terminators (the dot) up to the same
  quote, and that quote; or else the longest run without semicolon and line feed, which
  may be empty.
\<close>

definition quotedValue :: "jsstring \<Rightarrow> jsstring option" where
  "quotedValue s =
     (case s of
        [] \<Rightarrow> None
      | q # r \<Rightarrow>
          if q = 0x27 \<or> q = 0x22 then
            (let inner = takeWhile (\<lambda>c. c \<noteq> q \<and> \<not> isLineTerminator c) r in
             case dropWhile (\<lambda>c. c \<noteq> q \<and> \<not> isLineTerminator c) r of
               [] \<Rightarrow> None
             | c # _ \<Rightarrow> if c = q then Some (q # inner @ [q]) else None)
          else None)"

definition bareValue :: "jsstring \<Rightarrow> jsstring" where
  "bareValue s = takeWhile (\<lambda>c. c \<noteq> 0x3B \<and> c \<noteq> 0x0A) s"

definition filenameMatchAt :: "jsstring \<Rightarrow> jsstring option" where
  "filenameMatchAt s =
     (case matchLiteralCI (js ''filename'') s of
        None \<Rightarrow> None
      | Some rest \<Rightarrow>
          (case dropWhile (\<lambda>c. c \<noteq> 0x3B \<and> c \<noteq> 0x3D \<and> c \<noteq> 0x0A) rest of
             [] \<Rightarrow> None
           | c # v \<Rightarrow>
               if c = 0x3D then
                 (case quotedValue v of Some g \<Rightarrow> Some g | None \<Rightarrow> Some (bareValue v))
               else None))"

text \<open>\<^verbatim>\<open>.replace(/['"]/g, "")\<close>: every apostrophe and every quotation mark goes.\<close>

definition removeQuotes :: "jsstring \<Rightarrow> jsstring" where
  "removeQuotes s = filter (\<lambda>c. c \<noteq> 0x27 \<and> c \<noteq> 0x22) s"

text \<open>
  \<^verbatim>\<open>extractFilenameFromContentDisposition\<close>. \<open>Inr None\<close> is the result
  \<^verbatim>\<open>null\<close>, \<open>Inl URIError\<close> the exception of \<^verbatim>\<open>decodeURIComponent\<close>,
  which the function does not catch. An empty group 1 is falsy, so the second rule gives
  way then.
\<close>

definition extractFilenameFromContentDisposition :: "jsstring \<Rightarrow> error + jsstring option" where
  "extractFilenameFromContentDisposition contentDisposition =
     (if contentDisposition = [] then Inr None
      else
        (case firstMatch utf8MatchAt contentDisposition of
           Some g \<Rightarrow>
             (case decodeURIComponent g of Inl e \<Rightarrow> Inl e | Inr f \<Rightarrow> Inr (Some f))
         | None \<Rightarrow>
             (case firstMatch filenameMatchAt contentDisposition of
                Some g \<Rightarrow> if g \<noteq> [] then Inr (Some (removeQuotes g)) else Inr None
              | None \<Rightarrow> Inr None)))"

section \<open>Paths\<close>

text \<open>
  The functions of Node's \<^verbatim>\<open>path\<close> module that the program calls, in their POSIX
  form (separator: the slash).
\<close>

definition slash :: nat where
  "slash = 0x2F"

text \<open>
  \<^verbatim>\<open>path.basename\<close> without a suffix: trailing slashes are skipped, and the result
  runs from behind the last slash before them.
\<close>

definition basename :: "jsstring \<Rightarrow> jsstring" where
  "basename p = rev (takeWhile (\<lambda>c. c \<noteq> slash) (dropWhile (\<lambda>c. c = slash) (rev p)))"

text \<open>The segments of a path between its slashes, empty ones included.\<close>

fun segments :: "jsstring \<Rightarrow> jsstring list" where
  "segments [] = [[]]"
| "segments (c # cs) =
     (if c = slash then [] # segments cs
      else (case segments cs of [] \<Rightarrow> [[c]] | s # ss \<Rightarrow> (c # s) # ss))"

text \<open>
  Node's \<^verbatim>\<open>normalizeString\<close>, segment by segment; \<open>acc\<close> holds the segments kept
  so far, the last one first. An empty segment and \<^verbatim>\<open>.\<close> are dropped;
  \<^verbatim>\<open>..\<close> removes the segment before it, unless there is none or it is
  \<^verbatim>\<open>..\<close> itself: then it is kept when the path is relative (\<open>allowAboveRoot\<close>)
  and dropped when it is absolute.
\<close>

fun normalizeString :: "bool \<Rightarrow> jsstring list \<Rightarrow> jsstring list \<Rightarrow> jsstring list" where
  "normalizeString allowAboveRoot [] acc = rev acc"
| "normalizeString allowAboveRoot (s # ss) acc =
     (if s = [] \<or> s = js ''.'' then normalizeString allowAboveRoot ss acc
      else if s = js ''..'' then
        (case acc of
           [] \<Rightarrow> normalizeString allowAboveRoot ss (if allowAboveRoot then [s] else [])
         | t # ts \<Rightarrow>
             if t = js ''..''
             then normalizeString allowAboveRoot ss (if allowAboveRoot then s # acc else acc)
             else normalizeString allowAboveRoot ss ts)
      else normalizeString allowAboveRoot ss (s # acc))"

fun joinWith :: "nat \<Rightarrow> jsstring list \<Rightarrow> jsstring" where
  "joinWith sep [] = []"
| "joinWith sep [s] = s"
| "joinWith sep (s # t # ss) = s @ sep # joinWith sep (t # ss)"

text \<open>\<^verbatim>\<open>path.normalize\<close>.\<close>

definition normalize :: "jsstring \<Rightarrow> jsstring" where
  "normalize p =
     (if p = [] then js ''.''
      else
        (let isAbsolute = (hd p = slash);
             trailingSeparator = (last p = slash);
             q = joinWith slash (normalizeString (\<not> isAbsolute) (segments p) [])
         in if q = [] then
              (if isAbsolute then [slash]
               else if trailingSeparator then js ''./'' else js ''.'')
            else
              (let q' = (if trailingSeparator then q @ [slash] else q)
               in if isAbsolute then slash # q' else q')))"

text \<open>
  \<^verbatim>\<open>path.join\<close> of two arguments: the arguments that are not empty, joined by a
  slash, then normalised; \<^verbatim>\<open>.\<close> when both are empty.
\<close>

definition path_join :: "jsstring \<Rightarrow> jsstring \<Rightarrow> jsstring" where
  "path_join a b =
     (let joined = joinWith slash (filter (\<lambda>s. s \<noteq> []) [a, b])
      in if joined = [] then js ''.'' else normalize joined)"

text \<open>
  \<^verbatim>\<open>path.dirname\<close>: the scan runs from the end down to index 1, skips trailing
  slashes and the last segment, and stops at the slash before it. Without such a slash
  the result is the root for an absolute path and \<^verbatim>\<open>.\<close> for a relative one.
\<close>

definition dirname :: "jsstring \<Rightarrow> jsstring" where
  "dirname p =
     (if p = [] then js ''.''
      else
        (let hasRoot = (hd p = slash) in
         case dropWhile (\<lambda>c. c \<noteq> slash) (dropWhile (\<lambda>c. c = slash) (rev (tl p))) of
           [] \<Rightarrow> if hasRoot then [slash] else js ''.''
         | c # front \<Rightarrow>
             if hasRoot \<and> front = [] then [slash, slash] else hd p # rev front))"

text \<open>
  A directory and the directories above it, as \<^verbatim>\<open>mkdirSync\<close> with
  \<^verbatim>\<open>recursive\<close> walks them. \<^verbatim>\<open>dirname\<close> shortens every path but
  \<^verbatim>\<open>.\<close>, the root and a single character, so the length of the path bounds the
  walk.
\<close>

fun climb :: "nat \<Rightarrow> jsstring \<Rightarrow> jsstring list" where
  "climb 0 p = [p]"
| "climb (Suc n) p = (if dirname p = p then [p] else p # climb n (dirname p))"

definition ancestors :: "jsstring \<Rightarrow> jsstring list" where
  "ancestors p = climb (length p) p"

text \<open>The name of a directory written with trailing slashes: the path without them.\<close>

definition fsKey :: "jsstring \<Rightarrow> jsstring" where
  "fsKey p =
     (let q = rev (dropWhile (\<lambda>c. c = slash) (rev p))
      in if q = [] \<and> p \<noteq> [] then [slash] else q)"

section \<open>The world of the program\<close>

text \<open>
  A response to the streaming request of \<^verbatim>\<open>downloadFileWithProgress\<close>: the two
  headers the function reads, the reading of \<^verbatim>\<open>Date.now()\<close> when the function
  installs its \<^verbatim>\<open>data\<close> handler, the chunks of the body in the order of arrival,
  each with the reading of \<^verbatim>\<open>Date.now()\<close> in its handler, and whether the
  pipeline resolves after them (\<open>False\<close>: it rejects, the body stream or the write
  stream having failed). When the pipeline rejects, \<open>flushed\<close> tells what the write
  stream left behind: nothing at all (\<open>None\<close>, the file was never opened) or the first
  so many bytes of what arrived. The \<^verbatim>\<open>Content-Length\<close> header is a string of
  decimal digits, of which \<^verbatim>\<open>Number\<close> gives the value.
\<close>

type_synonym bytes = "nat list"

record response =
  contentDisposition :: "jsstring option"
  contentLength :: "nat option"
  started :: int
  chunks :: "(bytes \<times> int) list"
  completes :: bool
  flushed :: "nat option"

text \<open>
  The \<^verbatim>\<open>data\<close> of a response that is not streamed: text, or what
  \<^verbatim>\<open>axios\<close> made of a body it could parse as JSON into something that is no
  string.
\<close>

datatype body = Text jsstring | Parsed

text \<open>An \<^verbatim>\<open>a\<close> element as \<^verbatim>\<open>htmlparser2\<close> gives it.\<close>

record anchor =
  attribsHref :: "jsstring option"
  textContent :: jsstring

datatype fs_op = Mkdir | Unlink | Rename

text \<open>
  What the program does not decide: the servers (\<open>None\<close>: the request fails), the
  libraries that parse HTML and URLs (\<^verbatim>\<open>new URL(raw, base).toString()\<close>, with
  \<open>None\<close> for an invalid URL, and the \<^verbatim>\<open>pathname\<close> of \<^verbatim>\<open>new URL(url)\<close>),
  and the file system calls that throw (permissions, a full disk, a file where a
  directory has to be).
\<close>

record env =
  httpStream :: "jsstring \<Rightarrow> response option"
  httpText :: "jsstring \<Rightarrow> body option"
  parseAnchors :: "body \<Rightarrow> anchor list"
  urlResolve :: "jsstring \<Rightarrow> jsstring \<Rightarrow> jsstring option"
  urlPathname :: "jsstring \<Rightarrow> jsstring"
  fsFails :: "fs_op \<Rightarrow> jsstring \<Rightarrow> bool"

section \<open>The streaming download\<close>

record DownloadProgress =
  downloadedBytes :: nat
  totalBytes :: "nat option"
  percent :: "rat option"
  rateBps :: "rat option"

text \<open>
  What the download does in the order it does it, as far as the order matters: a call of
  the callback with its argument, and the rename of the temporary file.
\<close>

datatype event = Called DownloadProgress | Renamed jsstring jsstring

text \<open>
  What the program changes: the regular files (path to content) and the directories, and,
  as a record of what it did, the requests it has sent, the URLs whose body it has read,
  and the events of its downloads.
\<close>

record world =
  files :: "jsstring \<rightharpoonup> bytes"
  dirs :: "jsstring set"
  requests :: "jsstring list"
  bodiesRead :: "jsstring list"
  journal :: "event list"

text \<open>
  \<^verbatim>\<open>fs.existsSync\<close>: true for a regular file and for a directory, which may be
  written with a trailing slash.
\<close>

definition existsSync :: "world \<Rightarrow> jsstring \<Rightarrow> bool" where
  "existsSync w p = (files w p \<noteq> None \<or> fsKey p \<in> dirs w)"

text \<open>
  \<^verbatim>\<open>ensureDirForFile\<close>: the directory of the file and the directories above it are
  there afterwards, unless \<^verbatim>\<open>mkdirSync\<close> throws.
\<close>

definition ensureDirForFile :: "env \<Rightarrow> jsstring \<Rightarrow> world \<Rightarrow> error + world" where
  "ensureDirForFile env filePath w =
     (if fsFails env Mkdir filePath then Inl IOError
      else Inr (w\<lparr>dirs := dirs w \<union> set (ancestors (dirname filePath))\<rparr>))"

text \<open>
  The variables the \<^verbatim>\<open>data\<close> handler closes over: \<^verbatim>\<open>downloadedBytes\<close>,
  \<^verbatim>\<open>lastEmit\<close> and \<^verbatim>\<open>lastBytes\<close>.
\<close>

datatype sampler = Sampler nat int nat

text \<open>A number is truthy unless it is zero (or \<^verbatim>\<open>undefined\<close>, here \<open>None\<close>).\<close>

definition truthy :: "nat option \<Rightarrow> bool" where
  "truthy n = (case n of None \<Rightarrow> False | Some k \<Rightarrow> k \<noteq> 0)"

text \<open>
  The \<^verbatim>\<open>data\<close> handler on one chunk: the new variables and, when the throttle
  lets it through, the argument of \<^verbatim>\<open>onProgress\<close> with the clock reading
  \<^verbatim>\<open>now\<close> of the call. Times are milliseconds; rates and percentages are exact
  rationals.
\<close>

fun onData ::
  "nat option \<Rightarrow> sampler \<Rightarrow> bytes \<times> int \<Rightarrow> sampler \<times> (int \<times> DownloadProgress) option" where
  "onData totalSize (Sampler received lastEmit lastBytes) (chunk, now) =
     (let received' = received + length chunk;
          dt = (of_int (now - lastEmit) :: rat) / 1000
      in if dt \<ge> 1 / 4 then
           (Sampler received' now received',
            Some (now,
              \<lparr>downloadedBytes = received',
               totalBytes = totalSize,
               percent = (if truthy totalSize
                          then Some (of_nat received' / of_nat (the totalSize) * 100) else None),
               rateBps = Some ((of_nat received' - of_nat lastBytes) / dt)\<rparr>))
         else (Sampler received' lastEmit lastBytes, None))"

text \<open>The handler over the chunks of a body: the last variables and the calls made.\<close>

fun onDataAll ::
  "nat option \<Rightarrow> sampler \<Rightarrow> (bytes \<times> int) list \<Rightarrow> sampler \<times> (int \<times> DownloadProgress) list" where
  "onDataAll totalSize s [] = (s, [])"
| "onDataAll totalSize s (c # cs) =
     (case onData totalSize s c of
        (s', None) \<Rightarrow> onDataAll totalSize s' cs
      | (s', Some e) \<Rightarrow> (case onDataAll totalSize s' cs of (s'', es) \<Rightarrow> (s'', e # es)))"

fun receivedOf :: "sampler \<Rightarrow> nat" where
  "receivedOf (Sampler received lastEmit lastBytes) = received"

text \<open>
  Lines 50 to 55: the filename of the header, and the basename of the URL's path when the
  header gives none or an empty one.
\<close>

definition resolveFilename :: "env \<Rightarrow> jsstring \<Rightarrow> response \<Rightarrow> error + jsstring" where
  "resolveFilename env url res =
     (case extractFilenameFromContentDisposition
             (case contentDisposition res of None \<Rightarrow> [] | Some h \<Rightarrow> h) of
        Inl e \<Rightarrow> Inl e
      | Inr None \<Rightarrow> Inr (basename (urlPathname env url))
      | Inr (Some f) \<Rightarrow> Inr (if f = [] then basename (urlPathname env url) else f))"

text \<open>Line 57: the destination.\<close>

definition outputPathOf :: "env \<Rightarrow> jsstring \<Rightarrow> jsstring \<Rightarrow> response \<Rightarrow> error + jsstring" where
  "outputPathOf env url outputDir res =
     (case resolveFilename env url res of
        Inl e \<Rightarrow> Inl e
      | Inr filename \<Rightarrow> Inr (path_join outputDir filename))"

text \<open>The final call of \<^verbatim>\<open>onProgress\<close>, lines 117 to 122.\<close>

definition finalProgress :: "nat \<Rightarrow> nat option \<Rightarrow> DownloadProgress" where
  "finalProgress received totalSize =
     \<lparr>downloadedBytes = received,
      totalBytes = totalSize,
      percent = (if truthy totalSize then Some 100 else None),
      rateBps = None\<rparr>"

text \<open>
  \<^verbatim>\<open>downloadFileWithProgress\<close> with the default request options. \<open>onProgress\<close>
  tells whether the caller gave a callback. The result is the returned path or the
  exception, the world afterwards, and the arguments of the callback's calls in order.

  Line by line: the request (41); the destination (50 to 57); the directory (58); the
  skip when something is at the destination, a file or a directory (61 to 65); the stale
  temporary file (71 to 73), where \<^verbatim>\<open>unlinkSync\<close> throws on a directory; the handler and the pipeline (85 to 111), where the write
  stream cannot open its file unless the directory of the file is there, which is taken
  to show before any chunk is handled; the rename (114); the final call (117 to 122).
\<close>

definition downloadFileWithProgress ::
  "env \<Rightarrow> jsstring \<Rightarrow> jsstring \<Rightarrow> bool \<Rightarrow> world \<Rightarrow>
     (error + jsstring) \<times> world \<times> DownloadProgress list" where
  "downloadFileWithProgress env url outputDir onProgress w =
     (let w1 = w\<lparr>requests := requests w @ [url]\<rparr> in
      case httpStream env url of
        None \<Rightarrow> (Inl FetchError, w1, [])
      | Some res \<Rightarrow>
          (case outputPathOf env url outputDir res of
             Inl e \<Rightarrow> (Inl e, w1, [])
           | Inr outputPath \<Rightarrow>
               (case ensureDirForFile env outputPath w1 of
                  Inl e \<Rightarrow> (Inl e, w1, [])
                | Inr w2 \<Rightarrow>
                    if existsSync w2 outputPath then (Inr outputPath, w2, [])
                    else
                      (let tempPath = outputPath @ js ''.download'' in
                       if existsSync w2 tempPath
                          \<and> (fsKey tempPath \<in> dirs w2 \<or> fsFails env Unlink tempPath)
                       then (Inl IOError, w2, [])
                       else
                         (let w3 = w2\<lparr>files := (files w2)(tempPath := None)\<rparr> in
                          if dirname tempPath \<notin> dirs w3 then (Inl IOError, w3, [])
                          else
                            (let totalSize = contentLength res;
                                 run = onDataAll totalSize (Sampler 0 (started res) 0) (chunks res);
                                 calls = (if onProgress then map snd (snd run) else []);
                                 written = concat (map fst (chunks res));
                                 w4 = w3\<lparr>bodiesRead := bodiesRead w3 @ [url],
                                         journal := journal w3 @ map Called calls\<rparr>
                             in if \<not> completes res then
                                  (Inl PipelineError,
                                   w4\<lparr>files := (files w3)
                                          (tempPath := map_option (\<lambda>n. take n written) (flushed res))\<rparr>,
                                   calls)
                                else if fsFails env Rename tempPath then
                                  (Inl IOError, w4\<lparr>files := (files w3)(tempPath \<mapsto> written)\<rparr>, calls)
                                else
                                  (let finalCall = (if onProgress
                                                    then [finalProgress (receivedOf (fst run)) totalSize]
                                                    else [])
                                   in (Inr outputPath,
                                       w4\<lparr>files := (files w3)(tempPath := None, outputPath \<mapsto> written),
                                           journal := journal w4 @ Renamed tempPath outputPath
                                                        # map Called finalCall\<rparr>,
                                       calls @ finalCall))))))))"

section \<open>Link discovery\<close>

record LinkItem =
  href :: jsstring
  linkText :: jsstring

text \<open>
  The filter of line 97: the \<^verbatim>\<open>href\<close> attribute is there, is truthy (not the
  empty string) and starts with the prefix.
\<close>

definition matchesPrefix :: "jsstring \<Rightarrow> anchor \<Rightarrow> bool" where
  "matchesPrefix hrefPrefix x =
     (case attribsHref x of
        None \<Rightarrow> False
      | Some h \<Rightarrow> h \<noteq> [] \<and> startsWith h hrefPrefix)"

text \<open>
  The map of lines 98 to 104 with the filter of line 105: an anchor without a truthy
  \<^verbatim>\<open>href\<close> gives \<^verbatim>\<open>null\<close>, which line 105 drops; the \<^verbatim>\<open>URL\<close>
  constructor throws on an invalid URL.
\<close>

fun toItems :: "env \<Rightarrow> jsstring \<Rightarrow> anchor list \<Rightarrow> error + LinkItem list" where
  "toItems env url [] = Inr []"
| "toItems env url (a # as) =
     (case attribsHref a of
        None \<Rightarrow> toItems env url as
      | Some rawHref \<Rightarrow>
          if rawHref = [] then toItems env url as
          else
            (case urlResolve env rawHref url of
               None \<Rightarrow> Inl TypeError
             | Some h \<Rightarrow>
                 (case toItems env url as of
                    Inl e \<Rightarrow> Inl e
                  | Inr items \<Rightarrow>
                      Inr (\<lparr>href = h, linkText = trim (textContent a)\<rparr> # items))))"

text \<open>
  The loop of line 108 over a \<^verbatim>\<open>Map\<close>, which keeps its keys in the order of
  their first insertion: the map is a list of pairs in that order.
\<close>

fun dedupLoop :: "LinkItem list \<Rightarrow> (jsstring \<times> LinkItem) list \<Rightarrow> (jsstring \<times> LinkItem) list" where
  "dedupLoop [] dedup = dedup"
| "dedupLoop (it # items) dedup =
     dedupLoop items
       (if map_of dedup (href it) \<noteq> None then dedup else dedup @ [(href it, it)])"

definition getDownloadLinks ::
  "env \<Rightarrow> jsstring \<Rightarrow> jsstring \<Rightarrow> world \<Rightarrow> (error + LinkItem list) \<times> world" where
  "getDownloadLinks env url hrefPrefix w =
     (let w1 = w\<lparr>requests := requests w @ [url]\<rparr> in
      case httpText env url of
        None \<Rightarrow> (Inl FetchError, w1)
      | Some data \<Rightarrow>
          (case toItems env url (filter (matchesPrefix hrefPrefix) (parseAnchors env data)) of
             Inl e \<Rightarrow> (Inl e, w1)
           | Inr items \<Rightarrow> (Inr (map snd (dedupLoop items [])), w1)))"

text \<open>
  The pattern of \<^verbatim>\<open>getNestedDownloadLink\<close>,
  \<^verbatim>\<open>/window\.open\(\s*["']([^"']+)["']\s*\)/\<close>, tried at the start of the input.
  White space is no quote, a quote is not in the class of group 1 and white space is no
  parenthesis, so each greedy run ends where the next token has to stand.
\<close>

definition isQuote :: "nat \<Rightarrow> bool" where
  "isQuote c = (c = 0x22 \<or> c = 0x27)"

definition windowOpenAt :: "jsstring \<Rightarrow> jsstring option" where
  "windowOpenAt s =
     (case matchLiteral (js ''window.open('') s of
        None \<Rightarrow> None
      | Some rest \<Rightarrow>
          (case dropWhile isWhiteSpace rest of
             [] \<Rightarrow> None
           | q # r \<Rightarrow>
               if isQuote q then
                 (let v = takeWhile (\<lambda>c. \<not> isQuote c) r in
                  if v = [] then None
                  else
                    (case dropWhile (\<lambda>c. \<not> isQuote c) r of
                       [] \<Rightarrow> None
                     | q' # r' \<Rightarrow>
                         (case dropWhile isWhiteSpace r' of
                            [] \<Rightarrow> None
                          | c # _ \<Rightarrow> if c = 0x29 then Some v else None)))
               else None))"

text \<open>
  \<^verbatim>\<open>getNestedDownloadLink\<close>. A body that is no string has no \<^verbatim>\<open>match\<close>, and
  calling it throws.
\<close>

definition getNestedDownloadLink ::
  "env \<Rightarrow> jsstring \<Rightarrow> world \<Rightarrow> (error + jsstring option) \<times> world" where
  "getNestedDownloadLink env url w =
     (let w1 = w\<lparr>requests := requests w @ [url]\<rparr> in
      case httpText env url of
        None \<Rightarrow> (Inl FetchError, w1)
      | Some Parsed \<Rightarrow> (Inl TypeError, w1)
      | Some (Text data) \<Rightarrow> (Inr (firstMatch windowOpenAt data), w1))"

section \<open>The command line run\<close>

definition HOST_PREFIX :: jsstring where
  "HOST_PREFIX = js ''https://fuckingfast.co''"

text \<open>
  \<^verbatim>\<open>downloadWithProgressBar\<close>: the download with a callback that draws the bar;
  an exception of the download is thrown on.
\<close>

definition downloadWithProgressBar ::
  "env \<Rightarrow> jsstring \<Rightarrow> jsstring \<Rightarrow> world \<Rightarrow> (error + unit) \<times> world" where
  "downloadWithProgressBar env url outputDir w =
     (case downloadFileWithProgress env url outputDir True w of
        (Inl e, w', calls) \<Rightarrow> (Inl e, w')
      | (Inr p, w', calls) \<Rightarrow> (Inr (), w'))"

text \<open>
  The loop of lines 258 to 296 from the link at hand on, with \<^verbatim>\<open>successCount\<close>
  and \<^verbatim>\<open>failCount\<close>.
\<close>

fun downloadLoop ::
  "env \<Rightarrow> jsstring \<Rightarrow> LinkItem list \<Rightarrow> nat \<times> nat \<times> world \<Rightarrow> nat \<times> nat \<times> world" where
  "downloadLoop env outputDir [] st = st"
| "downloadLoop env outputDir (dLink # rest) (successCount, failCount, w) =
     (case getNestedDownloadLink env (href dLink) w of
        (Inl e, w1) \<Rightarrow> downloadLoop env outputDir rest (successCount, failCount + 1, w1)
      | (Inr None, w1) \<Rightarrow> downloadLoop env outputDir rest (successCount, failCount + 1, w1)
      | (Inr (Some nLink), w1) \<Rightarrow>
          (case downloadWithProgressBar env nLink outputDir w1 of
             (Inl e, w2) \<Rightarrow> downloadLoop env outputDir rest (successCount, failCount + 1, w2)
           | (Inr u, w2) \<Rightarrow> downloadLoop env outputDir rest (successCount + 1, failCount, w2)))"

text \<open>
  The answers of the user: the links ticked in the checkbox and the answer to the
  confirmation; \<open>None\<close> when the prompt rejects (the user interrupts it).
\<close>

record prompts =
  checkbox :: "LinkItem list \<Rightarrow> LinkItem list option"
  confirm :: "bool option"

text \<open>
  How \<^verbatim>\<open>downloadGame\<close> ends: \<^verbatim>\<open>process.exit\<close> with a code, a normal return,
  or an exception.
\<close>

datatype ending = Exit nat | Returned | Thrown error

definition downloadGame ::
  "env \<Rightarrow> prompts \<Rightarrow> jsstring \<Rightarrow> jsstring \<Rightarrow> bool \<Rightarrow> world \<Rightarrow>
     ending \<times> (nat \<times> nat) \<times> world" where
  "downloadGame env user url outputDir skipPrompt w =
     (case getDownloadLinks env url HOST_PREFIX w of
        (Inl e, w1) \<Rightarrow> (Exit 1, (0, 0), w1)
      | (Inr dLinks, w1) \<Rightarrow>
          if dLinks = [] then (Exit 0, (0, 0), w1)
          else
            (case (if skipPrompt then Some dLinks else checkbox user dLinks) of
               None \<Rightarrow> (Thrown PromptError, (0, 0), w1)
             | Some selectedLinks \<Rightarrow>
                 if \<not> skipPrompt \<and> selectedLinks = [] then (Exit 0, (0, 0), w1)
                 else if \<not> skipPrompt \<and> confirm user = None
                 then (Thrown PromptError, (0, 0), w1)
                 else if \<not> skipPrompt \<and> confirm user = Some False then (Exit 0, (0, 0), w1)
                 else
                   (case downloadLoop env outputDir selectedLinks (0, 0, w1) of
                      (successCount, failCount, w2) \<Rightarrow>
                        (if failCount > 0 then Exit 1 else Returned,
                         (successCount, failCount), w2))))"

text \<open>
  The exit status of the process: the handler of the command catches an exception and
  exits with 1 (lines 379 to 386); after a normal return the process ends with 0.
\<close>

fun exitStatus :: "ending \<Rightarrow> nat" where
  "exitStatus (Exit n) = n"
| "exitStatus Returned = 0"
| "exitStatus (Thrown e) = 1"

section \<open>The sampling discipline\<close>

text \<open>
  What the progress sampling promises of the calls made during a transfer, each with the
  clock reading of its call: a call comes 250 milliseconds or more after the one before
  it (after the start of the transfer for the first), it reports no fewer bytes, and its
  rate is the bytes received since then over the seconds passed since then.
\<close>

fun throttled :: "int \<Rightarrow> nat \<Rightarrow> (int \<times> DownloadProgress) list \<Rightarrow> bool" where
  "throttled lastEmit lastBytes [] = True"
| "throttled lastEmit lastBytes ((now, p) # es) =
     (now - lastEmit \<ge> 250
      \<and> lastBytes \<le> downloadedBytes p
      \<and> rateBps p =
          Some ((of_nat (downloadedBytes p) - of_nat lastBytes) / (of_int (now - lastEmit) / 1000))
      \<and> throttled now (downloadedBytes p) es)"

section \<open>Link discovery as the specification words it\<close>

text \<open>
  Deduplication where the first occurrence wins and the order of first occurrences is
  kept.
\<close>

fun firstByHref :: "LinkItem list \<Rightarrow> LinkItem list" where
  "firstByHref [] = []"
| "firstByHref (x # xs) = x # firstByHref (filter (\<lambda>y. href y \<noteq> href x) xs)"

text \<open>
  An anchor whose \<^verbatim>\<open>href\<close> the \<^verbatim>\<open>URL\<close> constructor accepts against the page
  URL, and the item made of such an anchor: the absolute URL and the trimmed text.
\<close>

definition resolves :: "env \<Rightarrow> jsstring \<Rightarrow> anchor \<Rightarrow> bool" where
  "resolves env url a =
     (case attribsHref a of None \<Rightarrow> False | Some h \<Rightarrow> urlResolve env h url \<noteq> None)"

definition itemOf :: "env \<Rightarrow> jsstring \<Rightarrow> anchor \<Rightarrow> LinkItem" where
  "itemOf env url a =
     \<lparr>href = the (urlResolve env (the (attribsHref a)) url), linkText = trim (textContent a)\<rparr>"

text \<open>
  The links as the specification words them: the anchors whose raw \<^verbatim>\<open>href\<close> starts
  with the prefix, resolved and deduplicated.
\<close>

definition claimedLinks :: "env \<Rightarrow> jsstring \<Rightarrow> jsstring \<Rightarrow> anchor list \<Rightarrow> LinkItem list" where
  "claimedLinks env url hrefPrefix anchors =
     firstByHref (map (itemOf env url)
       (filter (\<lambda>a. case attribsHref a of None \<Rightarrow> False | Some h \<Rightarrow> startsWith h hrefPrefix)
          anchors))"

section \<open>The outcome of each link\<close>

text \<open>
  What becomes of each selected link, in order, told from the servers and from the
  download itself, not from the loop: the page of the link cannot be fetched; its body is
  no text; it has no redirect; the download of the redirect's target throws; or the
  download returns. The world goes from link to link as the requests and the downloads
  leave it.
\<close>

datatype linkOutcome =
  NestedFetchFailed | NestedUnreadable | NestedNotFound | DownloadFailed | Downloaded

fun linkOutcomes :: "env \<Rightarrow> jsstring \<Rightarrow> LinkItem list \<Rightarrow> world \<Rightarrow> linkOutcome list" where
  "linkOutcomes env outputDir [] w = []"
| "linkOutcomes env outputDir (dLink # rest) w =
     (let asked = w\<lparr>requests := requests w @ [href dLink]\<rparr> in
      case httpText env (href dLink) of
        None \<Rightarrow> NestedFetchFailed # linkOutcomes env outputDir rest asked
      | Some Parsed \<Rightarrow> NestedUnreadable # linkOutcomes env outputDir rest asked
      | Some (Text data) \<Rightarrow>
          (case firstMatch windowOpenAt data of
             None \<Rightarrow> NestedNotFound # linkOutcomes env outputDir rest asked
           | Some nLink \<Rightarrow>
               (case downloadFileWithProgress env nLink outputDir True asked of
                  (Inl e, after, calls) \<Rightarrow> DownloadFailed # linkOutcomes env outputDir rest after
                | (Inr p, after, calls) \<Rightarrow> Downloaded # linkOutcomes env outputDir rest after)))"

section \<open>Concrete worlds\<close>

text \<open>No regular file; the root and the working directory are there.\<close>

definition emptyWorld :: world where
  "emptyWorld =
     \<lparr>files = Map.empty, dirs = {js ''/'', js ''.''}, requests = [], bodiesRead = [],
      journal = []\<rparr>"

text \<open>
  A server that answers every streaming request with the given response; the URL asked of
  it is \<^verbatim>\<open>https://cdn.example/files/setup.bin\<close>, whose path the platform gives
  as \<^verbatim>\<open>/files/setup.bin\<close>.
\<close>

definition serving :: "response \<Rightarrow> env" where
  "serving res =
     \<lparr>httpStream = (\<lambda>u. Some res),
      httpText = (\<lambda>u. None),
      parseAnchors = (\<lambda>d. []),
      urlResolve = (\<lambda>r b. None),
      urlPathname = (\<lambda>u. js ''/files/setup.bin''),
      fsFails = (\<lambda>k p. False)\<rparr>"

text \<open>
  A body of three bytes in one chunk, announced with its length, and no filename. Were
  the pipeline to reject, two of the bytes would be in the temporary file.
\<close>

definition plainResponse :: response where
  "plainResponse =
     \<lparr>contentDisposition = None, contentLength = Some 3, started = 0,
      chunks = [([82, 97, 114], 100)], completes = True, flushed = Some 2\<rparr>"

text \<open>
  A body of eight bytes in four chunks; the second and the fourth chunk come more than a
  quarter of a second after the last call.
\<close>

definition sampledResponse :: response where
  "sampledResponse =
     \<lparr>contentDisposition = None, contentLength = Some 8, started = 1000,
      chunks = [([1, 2], 1100), ([3, 4], 1300), ([5], 1400), ([6, 7, 8], 1700)],
      completes = True, flushed = None\<rparr>"

text \<open>
  The page \<^verbatim>\<open>https://example.test/repack/\<close> with four anchors: twice
  \<^verbatim>\<open>https://fuckingfast.co/a\<close>, once \<^verbatim>\<open>https://fuckingfast.co/b\<close> and once
  \<^verbatim>\<open>/local/page\<close>. The URL constructor gives what it gives for these: an absolute
  URL as it is, the local path on the host of the page, and the page for the empty
  reference.
\<close>

definition repackPage :: env where
  "repackPage =
     \<lparr>httpStream = (\<lambda>u. None),
      httpText = (\<lambda>u. if u = js ''https://example.test/repack/''
                       then Some (Text (js ''<html>'')) else None),
      parseAnchors = (\<lambda>d.
        [\<lparr>attribsHref = Some (js ''https://fuckingfast.co/a''), textContent = js '' Part 1 ''\<rparr>,
         \<lparr>attribsHref = Some (js ''https://fuckingfast.co/a''), textContent = js ''Mirror''\<rparr>,
         \<lparr>attribsHref = Some (js ''https://fuckingfast.co/b''), textContent = js ''Part 2''\<rparr>,
         \<lparr>attribsHref = Some (js ''/local/page''), textContent = js ''About''\<rparr>]),
      urlResolve = (\<lambda>raw base.
        if raw = [] then Some base
        else if raw = js ''/local/page'' then Some (js ''https://example.test/local/page'')
        else Some raw),
      urlPathname = (\<lambda>u. []),
      fsFails = (\<lambda>k p. False)\<rparr>"

text \<open>
  A page with five links. The page of the first cannot be fetched, the page of the second
  has no redirect, the page of the third opens the file of \<open>plainResponse\<close>, the page
  of the fourth opens a file whose stream breaks, and the page of the fifth is JSON.
\<close>

definition cliEnv :: env where
  \<open>cliEnv =
     \<lparr>httpStream = (\<lambda>u.
        if u = js ''https://cdn.example/files/setup.bin'' then Some plainResponse
        else if u = js ''https://cdn.example/files/broken.bin''
        then Some (plainResponse\<lparr>completes := False\<rparr>)
        else None),
      httpText = (\<lambda>u.
        if u = js ''https://example.test/repack/'' then Some (Text (js ''<html>''))
        else if u = js ''https://fuckingfast.co/b'' then Some (Text (js ''<p>gone</p>''))
        else if u = js ''https://fuckingfast.co/c''
        then Some (Text (js ''<script>window.open( "https://cdn.example/files/setup.bin" )</script>''))
        else if u = js ''https://fuckingfast.co/d''
        then Some (Text (js ''<script>window.open('https://cdn.example/files/broken.bin')</script>''))
        else if u = js ''https://fuckingfast.co/e'' then Some Parsed
        else None),
      parseAnchors = (\<lambda>d.
        [\<lparr>attribsHref = Some (js ''https://fuckingfast.co/a''), textContent = js ''Part 1''\<rparr>,
         \<lparr>attribsHref = Some (js ''https://fuckingfast.co/b''), textContent = js ''Part 2''\<rparr>,
         \<lparr>attribsHref = Some (js ''https://fuckingfast.co/c''), textContent = js ''Part 3''\<rparr>,
         \<lparr>attribsHref = Some (js ''https://fuckingfast.co/d''), textContent = js ''Part 4''\<rparr>,
         \<lparr>attribsHref = Some (js ''https://fuckingfast.co/e''), textContent = js ''Part 5''\<rparr>]),
      urlResolve = (\<lambda>raw base. Some raw),
      urlPathname = (\<lambda>u.
        if u = js ''https://cdn.example/files/broken.bin'' then js ''/files/broken.bin''
        else js ''/files/setup.bin''),
      fsFails = (\<lambda>k p. False)\<rparr>\<close>

text \<open>A user who ticks every link and confirms, and one who ticks the last three.\<close>

definition acceptAll :: prompts where
  "acceptAll = \<lparr>checkbox = (\<lambda>links. Some links), confirm = Some True\<rparr>"

definition lastThree :: prompts where
  "lastThree = \<lparr>checkbox = (\<lambda>links. Some (drop 2 links)), confirm = Some True\<rparr>"

section \<open>General facts\<close>

lemma takeWhile_until: "list_all P xs \<Longrightarrow> \<not> P y \<Longrightarrow> takeWhile P (xs @ y # ys) = xs"
  by (induction xs) auto

lemma dropWhile_until: "list_all P xs \<Longrightarrow> \<not> P y \<Longrightarrow> dropWhile P (xs @ y # ys) = y # ys"
  by (induction xs) auto

lemma takeWhile_whole: "list_all P xs \<Longrightarrow> takeWhile P xs = xs"
  by (induction xs) auto

lemmas filename_defs =
  extractFilenameFromContentDisposition_def utf8MatchAt_def utf8Value_def filenameMatchAt_def
  quotedValue_def bareValue_def removeQuotes_def js_def canonicalize_def
  isLineTerminator_def isWhiteSpace_def decodeEscape_def hexValue_def utf16_def

lemmas path_defs = path_join_def normalize_def slash_def js_def

lemmas fs_defs = ensureDirForFile_def existsSync_def dirname_def ancestors_def fsKey_def

section \<open>Filename resolution: the rules and their order\<close>

lemma basename_last_segment:
  assumes "seg \<noteq> []" and "slash \<notin> set seg"
  shows "basename (dir @ slash # seg) = seg"
proof -
  obtain c cs where r: "rev seg = c # cs"
    using assms(1) by (cases "rev seg") auto
  have "c \<in> set seg"
    using r by (metis list.set_intros(1) set_rev)
  then have c: "c \<noteq> slash"
    using assms(2) by auto
  have all: "list_all (\<lambda>c. c \<noteq> slash) (rev seg)"
    using assms(2) by (auto simp: list_all_iff)
  have d: "dropWhile (\<lambda>c. c = slash) (rev seg @ slash # rev dir) = rev seg @ slash # rev dir"
    using r c by simp
  have t: "takeWhile (\<lambda>c. c \<noteq> slash) (rev seg @ slash # rev dir) = rev seg"
    using all by (rule takeWhile_until) simp
  show ?thesis
    by (simp add: basename_def d t)
qed

lemma extract_extended:
  "extractFilenameFromContentDisposition (js ''filename*=UTF-8'' @ [0x27, 0x27] @ js ''%D0%A4.rar'')
     = Inr (Some (0x424 # js ''.rar''))"
  by (simp add: filename_defs)

lemma extract_standard:
  \<open>extractFilenameFromContentDisposition (js ''attachment; filename="game.zip"'')
     = Inr (Some (js ''game.zip''))\<close>
  by (simp add: filename_defs)

lemma extract_both:
  \<open>extractFilenameFromContentDisposition
      (js ''attachment; filename="game.zip"; filename*=UTF-8'' @ [0x27, 0x27] @ js ''%D0%A4.rar'')
     = Inr (Some (0x424 # js ''.rar''))\<close>
  by (simp add: filename_defs)

lemma resolve_without_header:
  "resolveFilename env url (res\<lparr>contentDisposition := None\<rparr>) = Inr (basename (urlPathname env url))"
  by (simp add: resolveFilename_def extractFilenameFromContentDisposition_def)

text \<open>
  C3. The rules of filename resolution, in their order. For the header value
  \<^verbatim>\<open>filename*=UTF-8''%D0%A4.rar\<close> the filename is the percent-decoded value, the
  letter U+0424 and \<^verbatim>\<open>.rar\<close>; for \<^verbatim>\<open>attachment; filename="game.zip"\<close> it is
  \<^verbatim>\<open>game.zip\<close>; when a header has both parameters the extended one wins, wherever it
  stands; and without the header the filename is \<^verbatim>\<open>path.basename\<close> of the URL's
  path, which is the last segment of the path whenever that segment is not empty.
\<close>

theorem filename_resolution_rules:
  \<open>resolveFilename env url
       (res\<lparr>contentDisposition :=
              Some (js ''filename*=UTF-8'' @ [0x27, 0x27] @ js ''%D0%A4.rar'')\<rparr>)
      = Inr (0x424 # js ''.rar'')
    \<and> resolveFilename env url
         (res\<lparr>contentDisposition := Some (js ''attachment; filename="game.zip"'')\<rparr>)
      = Inr (js ''game.zip'')
    \<and> resolveFilename env url
         (res\<lparr>contentDisposition :=
                Some (js ''attachment; filename="game.zip"; filename*=UTF-8'' @ [0x27, 0x27]
                      @ js ''%D0%A4.rar'')\<rparr>)
      = Inr (0x424 # js ''.rar'')
    \<and> resolveFilename env url (res\<lparr>contentDisposition := None\<rparr>)
      = Inr (basename (urlPathname env url))
    \<and> (urlPathname env url = dir @ slash # seg \<and> seg \<noteq> [] \<and> slash \<notin> set seg \<longrightarrow>
         resolveFilename env url (res\<lparr>contentDisposition := None\<rparr>) = Inr seg)\<close>
proof -
  have a: "resolveFilename env url
       (res\<lparr>contentDisposition :=
              Some (js ''filename*=UTF-8'' @ [0x27, 0x27] @ js ''%D0%A4.rar'')\<rparr>)
      = Inr (0x424 # js ''.rar'')"
    by (simp add: resolveFilename_def filename_defs)
  have b: \<open>resolveFilename env url
         (res\<lparr>contentDisposition := Some (js ''attachment; filename="game.zip"'')\<rparr>)
      = Inr (js ''game.zip'')\<close>
    by (simp add: resolveFilename_def filename_defs)
  have c: \<open>resolveFilename env url
         (res\<lparr>contentDisposition :=
                Some (js ''attachment; filename="game.zip"; filename*=UTF-8'' @ [0x27, 0x27]
                      @ js ''%D0%A4.rar'')\<rparr>)
      = Inr (0x424 # js ''.rar'')\<close>
    by (simp add: resolveFilename_def filename_defs)
  have d: "urlPathname env url = dir @ slash # seg \<and> seg \<noteq> [] \<and> slash \<notin> set seg \<longrightarrow>
         resolveFilename env url (res\<lparr>contentDisposition := None\<rparr>) = Inr seg"
    by (simp add: resolve_without_header basename_last_segment)
  show ?thesis
    using a b c d resolve_without_header by blast
qed

theorem filename_resolution_rules_witness:
  "resolveFilename (serving plainResponse) (js ''https://cdn.example/files/setup.bin'')
      (plainResponse\<lparr>contentDisposition := None\<rparr>) = Inr (js ''setup.bin'')"
proof -
  have "urlPathname (serving plainResponse) (js ''https://cdn.example/files/setup.bin'')
          = js ''/files'' @ slash # js ''setup.bin''
        \<and> js ''setup.bin'' \<noteq> [] \<and> slash \<notin> set (js ''setup.bin'')"
    by (simp add: serving_def slash_def js_def)
  then show ?thesis
    using filename_resolution_rules
      [of "serving plainResponse" "js ''https://cdn.example/files/setup.bin''" plainResponse
          "js ''/files''" "js ''setup.bin''"]
    by blast
qed

section \<open>Filename resolution: a malformed extended parameter\<close>

lemma decodeURIComponent_error: "decodeURIComponent s = Inl e \<Longrightarrow> e = URIError"
  by (induction s rule: decodeURIComponent.induct) (auto split: if_splits option.splits sum.splits)

text \<open>
  The function throws only from the first rule: when the extended parameter matches and
  its value is not percent-encoded UTF-8. Where the first rule does not match, the function
  returns.
\<close>

lemma extract_error:
  assumes "extractFilenameFromContentDisposition h = Inl e"
  shows "e = URIError
    \<and> (\<exists>g. firstMatch utf8MatchAt h = Some g \<and> decodeURIComponent g = Inl URIError)"
  using assms unfolding extractFilenameFromContentDisposition_def
  by (auto split: if_splits option.splits sum.splits dest: decodeURIComponent_error)

lemma extract_returns:
  assumes "firstMatch utf8MatchAt h = None"
  shows "\<exists>r. extractFilenameFromContentDisposition h = Inr r"
  using assms unfolding extractFilenameFromContentDisposition_def
  by (auto split: option.splits)

text \<open>
  C5. Filename resolution does throw. The header
  \<^verbatim>\<open>attachment; filename="game.zip"; filename*=UTF-8''%E0%A4%A\<close> has a standard
  parameter the second rule would read, but the value of its extended parameter is cut
  short in the middle of an escape: \<^verbatim>\<open>decodeURIComponent\<close> raises URIError, nothing
  catches it, and the download as a whole rejects with it after the request, with no
  file written and no callback called.
\<close>

theorem malformed_extended_filename_throws:
  \<open>extractFilenameFromContentDisposition
       (js ''attachment; filename="game.zip"; filename*=UTF-8'' @ [0x27, 0x27] @ js ''%E0%A4%A'')
      = Inl URIError
    \<and> downloadFileWithProgress
        (env\<lparr>httpStream := \<lambda>u. Some (res\<lparr>contentDisposition :=
            Some (js ''attachment; filename="game.zip"; filename*=UTF-8'' @ [0x27, 0x27]
                  @ js ''%E0%A4%A'')\<rparr>)\<rparr>)
        url outputDir onProgress w
      = (Inl URIError, w\<lparr>requests := requests w @ [url]\<rparr>, [])\<close>
  by (simp add: downloadFileWithProgress_def outputPathOf_def resolveFilename_def filename_defs)

section \<open>Filename resolution: the standard parameter\<close>

text \<open>
  C8. The code does not keep what is inside the quotes: the replacement of line 29 is
  global and its class holds both quote characters, so the apostrophe of
  \<^verbatim>\<open>filename="it's.zip"\<close> goes with the surrounding quotation marks and the
  filename is \<^verbatim>\<open>its.zip\<close>. The first rule of the same function keeps an
  apostrophe: for \<^verbatim>\<open>filename*=UTF-8''it's.zip\<close> the filename is
  \<^verbatim>\<open>it's.zip\<close>. The download writes the file under the shortened name.
\<close>

theorem interior_apostrophe_removed:
  \<open>extractFilenameFromContentDisposition (js ''attachment; filename="it's.zip"'')
      = Inr (Some (js ''its.zip''))
    \<and> extractFilenameFromContentDisposition (js ''attachment; filename="it's.zip"'')
      \<noteq> Inr (Some (js ''it's.zip''))
    \<and> extractFilenameFromContentDisposition
        (js ''attachment; filename*=UTF-8'' @ [0x27, 0x27] @ js ''it's.zip'')
      = Inr (Some (js ''it's.zip''))
    \<and> fst (downloadFileWithProgress
          (serving (plainResponse\<lparr>contentDisposition :=
                      Some (js ''attachment; filename="it's.zip"'')\<rparr>))
          (js ''https://cdn.example/files/setup.bin'') (js ''/srv/downloads'') False emptyWorld)
      = Inr (js ''/srv/downloads/its.zip'')\<close>
  by (simp add: downloadFileWithProgress_def outputPathOf_def resolveFilename_def filename_defs
      serving_def plainResponse_def emptyWorld_def path_defs fs_defs Let_def)

section \<open>The destination path\<close>

text \<open>
  C10. The destination is \<^verbatim>\<open>path.join\<close> of the output directory and the resolved
  filename, whatever the filename is. For the header
  \<^verbatim>\<open>attachment; filename="../evil.rar"\<close> and the directory \<^verbatim>\<open>/srv/downloads\<close>
  the download succeeds, returns \<^verbatim>\<open>/srv/evil.rar\<close> and writes the body there and
  nowhere else: the file is outside the output directory.
\<close>

theorem destination_escapes_output_directory:
  \<open>(case downloadFileWithProgress
            (serving (plainResponse\<lparr>contentDisposition :=
                        Some (js ''attachment; filename="../evil.rar"'')\<rparr>))
            (js ''https://cdn.example/files/setup.bin'') (js ''/srv/downloads'') False emptyWorld of
       (r, w', calls) \<Rightarrow>
         r = Inr (js ''/srv/evil.rar'')
         \<and> files w' (js ''/srv/evil.rar'') = Some [82, 97, 114]
         \<and> dom (files w') = {js ''/srv/evil.rar''})
    \<and> \<not> startsWith (js ''/srv/evil.rar'') (js ''/srv/downloads/'')
    \<and> outputPathOf env url outputDir res =
        (case resolveFilename env url res of
           Inl e \<Rightarrow> Inl e
         | Inr filename \<Rightarrow> Inr (path_join outputDir filename))\<close>
  by (simp add: downloadFileWithProgress_def outputPathOf_def resolveFilename_def filename_defs
      serving_def plainResponse_def emptyWorld_def path_defs fs_defs startsWith_def Let_def)

section \<open>The data handler\<close>

lemma snd_onDataAll_Cons:
  "snd (onDataAll totalSize s (c # cs)) =
     (case snd (onData totalSize s c) of
        None \<Rightarrow> snd (onDataAll totalSize (fst (onData totalSize s c)) cs)
      | Some e \<Rightarrow> e # snd (onDataAll totalSize (fst (onData totalSize s c)) cs))"
  by (simp split: prod.splits option.splits)

lemma fst_onDataAll_Cons:
  "fst (onDataAll totalSize s (c # cs)) =
     fst (onDataAll totalSize (fst (onData totalSize s c)) cs)"
  by (simp split: prod.splits option.splits)

declare onDataAll.simps(2) [simp del]

lemma onData_received:
  "receivedOf (fst (onData totalSize s c)) = receivedOf s + length (fst c)"
  by (cases s; cases c) (simp add: Let_def)

lemma onDataAll_received:
  "receivedOf (fst (onDataAll totalSize s cs)) = receivedOf s + length (concat (map fst cs))"
proof (induction cs arbitrary: s)
  case Nil
  then show ?case by simp
next
  case (Cons c cs)
  obtain s' e where step: "onData totalSize s c = (s', e)"
    by (cases "onData totalSize s c")
  have r: "receivedOf s' = receivedOf s + length (fst c)"
    using onData_received [of totalSize s c] by (simp add: step)
  show ?case
    using Cons.IH [of s'] r
    by (simp add: fst_onDataAll_Cons step)
qed

lemma onDataAll_rates:
  "list_all (\<lambda>e. rateBps (snd e) \<noteq> None) (snd (onDataAll totalSize s cs))"
proof (induction cs arbitrary: s)
  case Nil
  then show ?case by simp
next
  case (Cons c cs)
  obtain received lastEmit lastBytes where s: "s = Sampler received lastEmit lastBytes"
    by (cases s)
  obtain chunk now where c: "c = (chunk, now)"
    by (cases c)
  show ?case
    using Cons.IH
    by (simp add: snd_onDataAll_Cons s c Let_def)
qed

lemma onDataAll_throttled:
  "lastBytes \<le> received \<Longrightarrow>
     throttled lastEmit lastBytes (snd (onDataAll totalSize (Sampler received lastEmit lastBytes) cs))"
proof (induction cs arbitrary: received lastEmit lastBytes)
  case Nil
  then show ?case by simp
next
  case (Cons c cs)
  obtain chunk now where c: "c = (chunk, now)"
    by (cases c)
  show ?case
  proof (cases "(of_int (now - lastEmit) :: rat) / 1000 \<ge> 1 / 4")
    case True
    then have gap: "now - lastEmit \<ge> 250"
      by simp
    have "throttled now (received + length chunk)
            (snd (onDataAll totalSize (Sampler (received + length chunk) now (received + length chunk)) cs))"
      by (rule Cons.IH) simp
    then show ?thesis
      using True gap Cons.prems
      by (simp add: snd_onDataAll_Cons c Let_def)
  next
    case False
    have "throttled lastEmit lastBytes
            (snd (onDataAll totalSize (Sampler (received + length chunk) lastEmit lastBytes) cs))"
      by (rule Cons.IH) (use Cons.prems in simp)
    then show ?thesis
      using False by (simp add: snd_onDataAll_Cons c Let_def)
  qed
qed

lemma throttled_sorted:
  "throttled lastEmit lastBytes es \<Longrightarrow>
     sorted (map (\<lambda>e. downloadedBytes (snd e)) es) \<and> list_all (\<lambda>e. lastBytes \<le> downloadedBytes (snd e)) es"
proof (induction es arbitrary: lastEmit lastBytes)
  case Nil
  then show ?case by simp
next
  case (Cons e es)
  obtain now p where e: "e = (now, p)"
    by (cases e)
  from Cons.prems have t: "throttled now (downloadedBytes p) es" and le: "lastBytes \<le> downloadedBytes p"
    by (simp_all add: e)
  from Cons.IH [OF t] have s: "sorted (map (\<lambda>e. downloadedBytes (snd e)) es)"
    and a: "list_all (\<lambda>e. downloadedBytes p \<le> downloadedBytes (snd e)) es"
    by simp_all
  have b: "list_all (\<lambda>e. lastBytes \<le> downloadedBytes (snd e)) es"
    using a le by (auto simp: list_all_iff)
  have "sorted (downloadedBytes p # map (\<lambda>e. downloadedBytes (snd e)) es)"
    using s a by (auto simp: list_all_iff)
  then show ?case
    using b le by (simp add: e)
qed

lemma onDataAll_bounded:
  "list_all (\<lambda>e. downloadedBytes (snd e) \<le> receivedOf (fst (onDataAll totalSize s cs)))
     (snd (onDataAll totalSize s cs))"
proof (induction cs arbitrary: s)
  case Nil
  then show ?case by simp
next
  case (Cons c cs)
  obtain received lastEmit lastBytes where s: "s = Sampler received lastEmit lastBytes"
    by (cases s)
  obtain chunk now where c: "c = (chunk, now)"
    by (cases c)
  show ?case
    using Cons.IH [of "Sampler (received + length chunk) now (received + length chunk)"]
      Cons.IH [of "Sampler (received + length chunk) lastEmit lastBytes"]
    by (simp add: snd_onDataAll_Cons fst_onDataAll_Cons s c Let_def onDataAll_received)
qed

lemma sorted_calls:
  assumes "samples = snd (onDataAll totalSize (Sampler 0 t0 0) cs)"
  shows "sorted (map downloadedBytes (map snd samples))"
    and "sorted (map downloadedBytes (map snd samples @ [finalProgress (length (concat (map fst cs))) totalSize]))"
proof -
  have t: "throttled t0 0 samples"
    unfolding assms by (rule onDataAll_throttled) simp
  from throttled_sorted [OF t] show a: "sorted (map downloadedBytes (map snd samples))"
    by (simp add: comp_def)
  have "list_all (\<lambda>e. downloadedBytes (snd e) \<le> length (concat (map fst cs))) samples"
    using onDataAll_bounded [of totalSize "Sampler 0 t0 0" cs]
    by (simp add: assms onDataAll_received)
  then show "sorted (map downloadedBytes (map snd samples @ [finalProgress (length (concat (map fst cs))) totalSize]))"
    using a by (auto simp: sorted_append list_all_iff finalProgress_def)
qed

section \<open>The temporary file and the rename\<close>

lemma temp_differs: "outputPath @ js ''.download'' \<noteq> outputPath"
  by (simp add: js_def)

lemmas download_defs =
  downloadFileWithProgress_def outputPathOf_def resolveFilename_def
  extractFilenameFromContentDisposition_def basename_def
  serving_def plainResponse_def emptyWorld_def path_defs fs_defs finalProgress_def truthy_def
  onDataAll.simps(2)

text \<open>
  C1. Take any call, the response it got and its destination. If the call ends with the
  rejection of the pipeline, the stream did not complete, no file is at the destination and
  the temporary file holds the part of the body that had reached the disk, or is not there
  when nothing had. Whenever the stream does not complete, the destination is as it was
  before the call. And a file appears at the destination only when the stream completed:
  then the call returns the destination and the file is the whole body.
\<close>

theorem failed_stream_never_published:
  assumes call: "downloadFileWithProgress env url outputDir onProgress w = (r, w', calls)"
    and res: "httpStream env url = Some res"
    and path: "outputPathOf env url outputDir res = Inr outputPath"
  shows "(r = Inl PipelineError \<longrightarrow>
            \<not> completes res \<and> files w' outputPath = None
            \<and> files w' (outputPath @ js ''.download'')
                = map_option (\<lambda>n. take n (concat (map fst (chunks res)))) (flushed res))
       \<and> (\<not> completes res \<longrightarrow> files w' outputPath = files w outputPath)
       \<and> (files w outputPath = None \<and> files w' outputPath \<noteq> None \<longrightarrow>
            completes res \<and> r = Inr outputPath
            \<and> files w' outputPath = Some (concat (map fst (chunks res))))"
  using call temp_differs [of outputPath]
  unfolding downloadFileWithProgress_def ensureDirForFile_def existsSync_def
  by (auto simp add: res path Let_def split: if_splits)

theorem failed_stream_never_published_witness:
  "fst (downloadFileWithProgress (serving (plainResponse\<lparr>completes := False\<rparr>))
          (js ''https://cdn.example/files/setup.bin'') (js ''/srv/downloads'') False emptyWorld)
     = Inl PipelineError
   \<and> files (fst (snd (downloadFileWithProgress (serving (plainResponse\<lparr>completes := False\<rparr>))
          (js ''https://cdn.example/files/setup.bin'') (js ''/srv/downloads'') False emptyWorld)))
        (js ''/srv/downloads/setup.bin'') = None
   \<and> files (fst (snd (downloadFileWithProgress (serving (plainResponse\<lparr>completes := False\<rparr>))
          (js ''https://cdn.example/files/setup.bin'') (js ''/srv/downloads'') False emptyWorld)))
        (js ''/srv/downloads/setup.bin.download'') = Some [82, 97]"
proof -
  obtain r w' calls where call:
    "downloadFileWithProgress (serving (plainResponse\<lparr>completes := False\<rparr>))
          (js ''https://cdn.example/files/setup.bin'') (js ''/srv/downloads'') False emptyWorld
       = (r, w', calls)"
    by (rule prod_cases3)
  have r: "r = Inl PipelineError"
    using call by (simp add: download_defs Let_def)
  have res: "httpStream (serving (plainResponse\<lparr>completes := False\<rparr>))
               (js ''https://cdn.example/files/setup.bin'')
             = Some (plainResponse\<lparr>completes := False\<rparr>)"
    by (simp add: serving_def)
  have path: "outputPathOf (serving (plainResponse\<lparr>completes := False\<rparr>))
                (js ''https://cdn.example/files/setup.bin'') (js ''/srv/downloads'')
                (plainResponse\<lparr>completes := False\<rparr>)
              = Inr (js ''/srv/downloads/setup.bin'')"
    by (simp add: download_defs)
  show ?thesis
    using failed_stream_never_published [OF call res path] r
    by (simp add: call) (simp add: plainResponse_def js_def)
qed

section \<open>Calling twice\<close>

text \<open>
  C2, as the claim states it, fails: the filename comes from the response headers, so the
  request goes out before the function can look for the file. After two calls for the same
  URL and directory the server has been asked twice.
\<close>

theorem second_call_requests_again:
  "(case downloadFileWithProgress (serving plainResponse)
           (js ''https://cdn.example/files/setup.bin'') (js ''/srv/downloads'') False emptyWorld of
      (r1, w1, calls1) \<Rightarrow>
        (case downloadFileWithProgress (serving plainResponse)
                (js ''https://cdn.example/files/setup.bin'') (js ''/srv/downloads'') False w1 of
           (r2, w2, calls2) \<Rightarrow>
             r1 = Inr (js ''/srv/downloads/setup.bin'')
             \<and> r2 = Inr (js ''/srv/downloads/setup.bin'')
             \<and> requests w2 = [js ''https://cdn.example/files/setup.bin'',
                               js ''https://cdn.example/files/setup.bin'']
             \<and> length (requests w2) \<noteq> 1))"
  by (simp add: download_defs Let_def)

lemma returned_path_facts:
  assumes "downloadFileWithProgress env url outputDir onProgress w = (Inr p, w1, calls)"
  shows "\<exists>res. httpStream env url = Some res
           \<and> outputPathOf env url outputDir res = Inr p"
    and "\<not> fsFails env Mkdir p"
    and "set (ancestors (dirname p)) \<subseteq> dirs w1"
    and "existsSync w1 p"
    and "requests w1 = requests w @ [url]"
  using assms unfolding downloadFileWithProgress_def ensureDirForFile_def existsSync_def
  by (auto simp add: Let_def split: option.splits sum.splits if_splits)

text \<open>
  C2, amended. After a call that returned a path, a second call for the same URL and
  directory sends its request (the requests of the first call followed by one more), finds
  the path taken (by the file of the first call, or by what made the first call skip) and
  returns the path without error; it changes no file and no directory, leaves the body
  unread and calls no callback. The body is read at most once over the two calls.
\<close>

theorem second_download_skips:
  assumes first: "downloadFileWithProgress env url outputDir onProgress w = (Inr p, w1, calls)"
  shows "downloadFileWithProgress env url outputDir onProgress' w1
           = (Inr p, w1\<lparr>requests := requests w1 @ [url]\<rparr>, [])
       \<and> requests w1 = requests w @ [url]
       \<and> existsSync w1 p"
proof -
  note facts = returned_path_facts [OF first]
  obtain res where res: "httpStream env url = Some res"
    and path: "outputPathOf env url outputDir res = Inr p"
    using facts(1) by blast
  have same: "dirs w1 \<union> set (ancestors (dirname p)) = dirs w1"
    using facts(3) by auto
  have there: "existsSync (w1\<lparr>requests := requests w1 @ [url]\<rparr>) p"
    using facts(4) by (simp add: existsSync_def)
  have "downloadFileWithProgress env url outputDir onProgress' w1
           = (Inr p, w1\<lparr>requests := requests w1 @ [url]\<rparr>, [])"
    unfolding downloadFileWithProgress_def
    by (simp add: Let_def res path ensureDirForFile_def facts(2) same there)
  then show ?thesis
    using facts(4,5) by simp
qed

theorem second_download_skips_witness:
  "(case downloadFileWithProgress (serving plainResponse)
           (js ''https://cdn.example/files/setup.bin'') (js ''/srv/downloads'') True emptyWorld of
      (r1, w1, calls1) \<Rightarrow>
        r1 = Inr (js ''/srv/downloads/setup.bin'')
        \<and> downloadFileWithProgress (serving plainResponse)
             (js ''https://cdn.example/files/setup.bin'') (js ''/srv/downloads'') True w1
           = (Inr (js ''/srv/downloads/setup.bin''),
              w1\<lparr>requests := requests w1 @ [js ''https://cdn.example/files/setup.bin'']\<rparr>, [])
        \<and> bodiesRead w1 = [js ''https://cdn.example/files/setup.bin''])"
proof -
  obtain r1 w1 calls1 where call:
    "downloadFileWithProgress (serving plainResponse)
           (js ''https://cdn.example/files/setup.bin'') (js ''/srv/downloads'') True emptyWorld
       = (r1, w1, calls1)"
    by (rule prod_cases3)
  have r1: "r1 = Inr (js ''/srv/downloads/setup.bin'')"
    and b: "bodiesRead w1 = [js ''https://cdn.example/files/setup.bin'']"
    using call by (auto simp add: download_defs Let_def)
  from second_download_skips [OF call [unfolded r1], of True] show ?thesis
    by (simp add: call r1 b)
qed


section \<open>The final call of the callback\<close>

text \<open>
  C6, as the claim states it, fails for a length that is known to be zero: line 120 tests
  the truthiness of \<^verbatim>\<open>totalBytes\<close>, and a response with
  \<^verbatim>\<open>Content-Length: 0\<close> gets a final call without \<^verbatim>\<open>percent\<close>.
\<close>

theorem zero_length_final_percent_absent:
  "(case downloadFileWithProgress (serving (plainResponse\<lparr>contentLength := Some 0, chunks := []\<rparr>))
           (js ''https://cdn.example/files/setup.bin'') (js ''/srv/downloads'') True emptyWorld of
      (r, w', calls) \<Rightarrow>
        r = Inr (js ''/srv/downloads/setup.bin'')
        \<and> files w' (js ''/srv/downloads/setup.bin'') = Some []
        \<and> calls = [\<lparr>downloadedBytes = 0, totalBytes = Some 0, percent = None, rateBps = None\<rparr>])"
  by (simp add: download_defs Let_def)

lemma final_shape:
  "finalProgress n t = f \<Longrightarrow>
     downloadedBytes f = n \<and> totalBytes f = t \<and> rateBps f = None
     \<and> (\<forall>k. t = Some k \<and> k \<noteq> 0 \<longrightarrow> percent f = Some 100)
     \<and> (t = None \<longrightarrow> percent f = None)"
  by (auto simp: finalProgress_def truthy_def)

lemma download_cases:
  assumes call: "downloadFileWithProgress env url outputDir True w = (r, w', calls)"
    and res: "httpStream env url = Some res"
    and path: "outputPathOf env url outputDir res = Inr p"
    and mid: "mid = map snd (snd (onDataAll (contentLength res) (Sampler 0 (started res) 0) (chunks res)))"
    and final: "final = finalProgress (length (concat (map fst (chunks res)))) (contentLength res)"
    and w2: "w2 = w\<lparr>requests := requests w @ [url], dirs := dirs w \<union> set (ancestors (dirname p))\<rparr>"
  shows "(fsFails env Mkdir p \<and> r = Inl IOError \<and> calls = [] \<and> journal w' = journal w
         \<and> files w' = files w \<and> bodiesRead w' = bodiesRead w)
     \<or> (\<not> fsFails env Mkdir p \<and> existsSync w2 p \<and> r = Inr p \<and> calls = []
         \<and> journal w' = journal w \<and> files w' = files w \<and> bodiesRead w' = bodiesRead w)
     \<or> (\<not> fsFails env Mkdir p \<and> \<not> existsSync w2 p \<and> (\<exists>e. r = Inl e) \<and> calls = []
         \<and> journal w' = journal w)
     \<or> (\<not> fsFails env Mkdir p \<and> \<not> existsSync w2 p \<and> (\<exists>e. r = Inl e) \<and> calls = mid
         \<and> journal w' = journal w @ map Called mid)
     \<or> (\<not> fsFails env Mkdir p \<and> \<not> existsSync w2 p \<and> r = Inr p \<and> calls = mid @ [final]
        \<and> journal w' = journal w @ map Called mid @ [Renamed (p @ js ''.download'') p, Called final]
        \<and> files w' p = Some (concat (map fst (chunks res)))
        \<and> files w' (p @ js ''.download'') = None)"
proof (cases "fsFails env Mkdir p")
  case True
  then show ?thesis
    using call unfolding downloadFileWithProgress_def ensureDirForFile_def
    by (auto simp add: res path Let_def)
next
  case False
  note mk = this
  have e: "ensureDirForFile env p (w\<lparr>requests := requests w @ [url]\<rparr>) = Inr w2"
    by (simp add: ensureDirForFile_def mk w2)
  show ?thesis
  proof (cases "existsSync w2 p")
    case True
    then show ?thesis
      using call mk unfolding downloadFileWithProgress_def
      by (auto simp add: res path Let_def e w2)
  next
    case False
    note ex = this
    show ?thesis
    proof (cases "existsSync w2 (p @ js ''.download'')
        \<and> (fsKey (p @ js ''.download'') \<in> dirs w2 \<or> fsFails env Unlink (p @ js ''.download''))")
      case True
      then have "r = Inl IOError \<and> calls = [] \<and> w' = w2"
        using call mk ex unfolding downloadFileWithProgress_def
        by (auto simp add: res path Let_def e)
      then show ?thesis
        using mk ex by (simp add: w2)
    next
      case False
      note un = this
      show ?thesis
      proof (cases "dirname (p @ js ''.download'') \<in> dirs w2")
        case False
        then have "r = Inl IOError \<and> calls = []
            \<and> w' = w2\<lparr>files := (files w2)(p @ js ''.download'' := None)\<rparr>"
          using call mk ex un unfolding downloadFileWithProgress_def
          by (auto simp add: res path Let_def e)
        then show ?thesis
          using mk ex by (simp add: w2)
      next
        case True
        then show ?thesis
          using call mk ex un temp_differs [of p] unfolding downloadFileWithProgress_def
          by (auto simp add: res path Let_def e mid final onDataAll_received w2 split: if_splits)
      qed
    qed
  qed
qed

text \<open>
  C6, amended. Take a call with a callback, the response it got and its destination. The
  journal of the world holds, in their order, the calls of the callback and the rename.
  When the call returns and nothing was at the destination once its directories were made
  (the download was not skipped), the journal gains the calls made during the transfer,
  then the rename of the temporary file to the destination, then one final call, and these
  are all the calls; the final call has no rate, reports every byte of the body and the
  announced length, and has the percentage 100 whenever the length was announced and is
  not zero (none when no length was announced); every call before it has a rate; the file
  is at the destination and the temporary file is gone. When something was at the
  destination, a file or a directory, the callback is not called at all, the journal and
  the files stay as they were and the body stays unread. When the call throws, be it
  because the rename failed, every call that was made has a rate and the journal gained
  these calls only: there is no final call and no rename.
\<close>

theorem final_progress_call:
  assumes call: "downloadFileWithProgress env url outputDir True w = (r, w', calls)"
    and res: "httpStream env url = Some res"
    and path: "outputPathOf env url outputDir res = Inr p"
  shows "(r = Inr p \<and> \<not> existsSync (w\<lparr>dirs := dirs w \<union> set (ancestors (dirname p))\<rparr>) p \<longrightarrow>
            (\<exists>mid final.
                calls = mid @ [final]
                \<and> journal w' = journal w @ map Called mid
                                  @ [Renamed (p @ js ''.download'') p, Called final]
                \<and> downloadedBytes final = length (concat (map fst (chunks res)))
                \<and> totalBytes final = contentLength res
                \<and> rateBps final = None
                \<and> (\<forall>n. contentLength res = Some n \<and> n \<noteq> 0 \<longrightarrow> percent final = Some 100)
                \<and> (contentLength res = None \<longrightarrow> percent final = None)
                \<and> list_all (\<lambda>c. rateBps c \<noteq> None) mid)
            \<and> files w' p = Some (concat (map fst (chunks res)))
            \<and> files w' (p @ js ''.download'') = None)
       \<and> (existsSync w p \<or> (r = Inr p \<and> existsSync (w\<lparr>dirs := dirs w \<union> set (ancestors (dirname p))\<rparr>) p) \<longrightarrow>
            calls = [] \<and> journal w' = journal w \<and> files w' = files w
            \<and> bodiesRead w' = bodiesRead w)
       \<and> (\<forall>e. r = Inl e \<longrightarrow>
            journal w' = journal w @ map Called calls
            \<and> list_all (\<lambda>c. rateBps c \<noteq> None) calls)"
proof -
  define mid where "mid = map snd (snd (onDataAll (contentLength res) (Sampler 0 (started res) 0) (chunks res)))"
  define final where "final = finalProgress (length (concat (map fst (chunks res)))) (contentLength res)"
  define w2 where "w2 = w\<lparr>requests := requests w @ [url], dirs := dirs w \<union> set (ancestors (dirname p))\<rparr>"
  define there where "there = existsSync (w\<lparr>dirs := dirs w \<union> set (ancestors (dirname p))\<rparr>) p"
  have rates: "list_all (\<lambda>c. rateBps c \<noteq> None) mid"
    using onDataAll_rates [of "contentLength res" "Sampler 0 (started res) 0" "chunks res"]
    by (simp add: mid_def list_all_iff)
  note shape = final_shape [OF final_def [symmetric]]
  have same: "existsSync w2 p = there"
    by (simp add: existsSync_def w2_def there_def)
  have mono: "existsSync w p \<longrightarrow> there"
    by (auto simp: existsSync_def there_def)
  note cases = download_cases [OF call res path mid_def final_def w2_def, unfolded same]
  have full: "(\<exists>mid final.
                calls = mid @ [final]
                \<and> journal w' = journal w @ map Called mid
                                  @ [Renamed (p @ js ''.download'') p, Called final]
                \<and> downloadedBytes final = length (concat (map fst (chunks res)))
                \<and> totalBytes final = contentLength res
                \<and> rateBps final = None
                \<and> (\<forall>n. contentLength res = Some n \<and> n \<noteq> 0 \<longrightarrow> percent final = Some 100)
                \<and> (contentLength res = None \<longrightarrow> percent final = None)
                \<and> list_all (\<lambda>c. rateBps c \<noteq> None) mid)"
    if c: "calls = mid @ [final]"
      and j: "journal w' = journal w @ map Called mid @ [Renamed (p @ js ''.download'') p, Called final]"
    using c j shape rates by (intro exI [of _ mid] exI [of _ final]) simp
  have nil: "list_all (\<lambda>c. rateBps c \<noteq> None) ([] :: DownloadProgress list)"
    by simp
  from cases have main:
    "(r = Inr p \<and> \<not> there \<longrightarrow>
            (\<exists>mid final.
                calls = mid @ [final]
                \<and> journal w' = journal w @ map Called mid
                                  @ [Renamed (p @ js ''.download'') p, Called final]
                \<and> downloadedBytes final = length (concat (map fst (chunks res)))
                \<and> totalBytes final = contentLength res
                \<and> rateBps final = None
                \<and> (\<forall>n. contentLength res = Some n \<and> n \<noteq> 0 \<longrightarrow> percent final = Some 100)
                \<and> (contentLength res = None \<longrightarrow> percent final = None)
                \<and> list_all (\<lambda>c. rateBps c \<noteq> None) mid)
            \<and> files w' p = Some (concat (map fst (chunks res)))
            \<and> files w' (p @ js ''.download'') = None)
       \<and> (existsSync w p \<or> (r = Inr p \<and> there) \<longrightarrow>
            calls = [] \<and> journal w' = journal w \<and> files w' = files w
            \<and> bodiesRead w' = bodiesRead w)
       \<and> (\<forall>e. r = Inl e \<longrightarrow>
            journal w' = journal w @ map Called calls
            \<and> list_all (\<lambda>c. rateBps c \<noteq> None) calls)"
  proof (elim disjE conjE exE)
    assume "r = Inl IOError" "calls = []" "journal w' = journal w" "files w' = files w"
      "bodiesRead w' = bodiesRead w"
    then show ?thesis
      by simp
  next
    assume "there" "r = Inr p" "calls = []" "journal w' = journal w" "files w' = files w"
      "bodiesRead w' = bodiesRead w"
    then show ?thesis
      by simp
  next
    fix e
    assume "\<not> there" "r = Inl e" "calls = []" "journal w' = journal w"
    then show ?thesis
      using mono by simp
  next
    fix e
    assume "\<not> there" "r = Inl e" "calls = mid" "journal w' = journal w @ map Called mid"
    then show ?thesis
      using mono rates by simp
  next
    assume n: "\<not> there" and r: "r = Inr p" and c: "calls = mid @ [final]"
      and j: "journal w' = journal w @ map Called mid @ [Renamed (p @ js ''.download'') p, Called final]"
      and f: "files w' p = Some (concat (map fst (chunks res)))"
      and t: "files w' (p @ js ''.download'') = None"
    have "\<not> existsSync w p"
      using n mono by blast
    then show ?thesis
      using n r f t full [OF c j] by simp
  qed
  then show ?thesis
    unfolding there_def .
qed


theorem final_progress_call_witness:
  "(case downloadFileWithProgress (serving sampledResponse)
           (js ''https://cdn.example/files/setup.bin'') (js ''/srv/downloads'') True emptyWorld of
      (r, w', calls) \<Rightarrow>
        r = Inr (js ''/srv/downloads/setup.bin'')
        \<and> (\<exists>mid final. calls = mid @ [final]
              \<and> journal w' = map Called mid
                    @ [Renamed (js ''/srv/downloads/setup.bin.download'')
                         (js ''/srv/downloads/setup.bin''), Called final]
              \<and> downloadedBytes final = 8 \<and> totalBytes final = Some 8
              \<and> rateBps final = None \<and> percent final = Some 100
              \<and> list_all (\<lambda>c. rateBps c \<noteq> None) mid)
        \<and> files w' (js ''/srv/downloads/setup.bin'') = Some [1, 2, 3, 4, 5, 6, 7, 8])
   \<and> (case downloadFileWithProgress ((serving plainResponse)\<lparr>urlPathname := \<lambda>u. js ''/''\<rparr>)
           (js ''https://cdn.example/'') (js ''/srv/downloads'') True
           (emptyWorld\<lparr>dirs := {js ''/'', js ''/srv'', js ''/srv/downloads''}\<rparr>) of
      (r, w', calls) \<Rightarrow>
        r = Inr (js ''/srv/downloads'') \<and> calls = [] \<and> journal w' = [] \<and> bodiesRead w' = [])"
proof -
  obtain r w' calls where call:
    "downloadFileWithProgress (serving sampledResponse)
          (js ''https://cdn.example/files/setup.bin'') (js ''/srv/downloads'') True emptyWorld
       = (r, w', calls)"
    by (rule prod_cases3)
  have r: "r = Inr (js ''/srv/downloads/setup.bin'')"
    using call by (auto simp add: download_defs sampledResponse_def Let_def)
  have res: "httpStream (serving sampledResponse) (js ''https://cdn.example/files/setup.bin'')
      = Some sampledResponse"
    by (simp add: serving_def)
  have path: "outputPathOf (serving sampledResponse) (js ''https://cdn.example/files/setup.bin'')
      (js ''/srv/downloads'') sampledResponse = Inr (js ''/srv/downloads/setup.bin'')"
    by (simp add: download_defs sampledResponse_def)
  have absent: "\<not> existsSync
      (emptyWorld\<lparr>dirs := dirs emptyWorld \<union> set (ancestors (dirname (js ''/srv/downloads/setup.bin'')))\<rparr>)
      (js ''/srv/downloads/setup.bin'')"
    by (simp add: emptyWorld_def fs_defs js_def slash_def)
  have eight: "Suc (Suc (Suc (Suc (Suc (Suc (Suc (Suc 0))))))) = 8"
    by simp
  note first = final_progress_call [OF call [unfolded r] res path, THEN conjunct1, rule_format,
      OF conjI, OF refl absent]
  have one: "r = Inr (js ''/srv/downloads/setup.bin'')
        \<and> (\<exists>mid final. calls = mid @ [final]
              \<and> journal w' = map Called mid
                    @ [Renamed (js ''/srv/downloads/setup.bin.download'')
                         (js ''/srv/downloads/setup.bin''), Called final]
              \<and> downloadedBytes final = 8 \<and> totalBytes final = Some 8
              \<and> rateBps final = None \<and> percent final = Some 100
              \<and> list_all (\<lambda>c. rateBps c \<noteq> None) mid)
        \<and> files w' (js ''/srv/downloads/setup.bin'') = Some [1, 2, 3, 4, 5, 6, 7, 8]"
    using first r by (simp add: sampledResponse_def emptyWorld_def eight js_def)
  obtain r2 w2 calls2 where call2:
    "downloadFileWithProgress ((serving plainResponse)\<lparr>urlPathname := \<lambda>u. js ''/''\<rparr>)
           (js ''https://cdn.example/'') (js ''/srv/downloads'') True
           (emptyWorld\<lparr>dirs := {js ''/'', js ''/srv'', js ''/srv/downloads''}\<rparr>)
       = (r2, w2, calls2)"
    by (rule prod_cases3)
  have r2: "r2 = Inr (js ''/srv/downloads'')"
    using call2 by (auto simp add: download_defs Let_def)
  have res2: "httpStream ((serving plainResponse)\<lparr>urlPathname := \<lambda>u. js ''/''\<rparr>)
      (js ''https://cdn.example/'') = Some plainResponse"
    by (simp add: serving_def)
  have path2: "outputPathOf ((serving plainResponse)\<lparr>urlPathname := \<lambda>u. js ''/''\<rparr>)
      (js ''https://cdn.example/'') (js ''/srv/downloads'') plainResponse
      = Inr (js ''/srv/downloads'')"
    by (simp add: download_defs)
  have there: "existsSync (emptyWorld\<lparr>dirs := {js ''/'', js ''/srv'', js ''/srv/downloads''}\<rparr>)
      (js ''/srv/downloads'')"
    by (simp add: emptyWorld_def fs_defs js_def slash_def)
  note second = final_progress_call [OF call2 [unfolded r2] res2 path2, THEN conjunct2,
      THEN conjunct1, rule_format, OF disjI1, OF there]
  have two: "r2 = Inr (js ''/srv/downloads'') \<and> calls2 = [] \<and> journal w2 = [] \<and> bodiesRead w2 = []"
    using second r2 by (simp add: emptyWorld_def)
  show ?thesis
    using one two by (simp only: call call2 prod.case) 
qed

section \<open>Progress sampling\<close>

text \<open>
  C7. The calls of the callback in one download report byte counts that never decrease.
  When there are calls, those made during the transfer are the calls of the data handler
  over the chunks of the response, which keep the sampling discipline from the start of
  the transfer on: 250 milliseconds or more between a call and the one before it, and as
  rate the bytes since the call before over the seconds since then. After them comes at
  most the final call. Rates are exact rationals here, where the program rounds to
  floating point.
\<close>

theorem progress_sampling:
  assumes call: "downloadFileWithProgress env url outputDir onProgress w = (r, w', calls)"
  shows "sorted (map downloadedBytes calls)
       \<and> (calls = []
          \<or> (\<exists>res samples.
                httpStream env url = Some res
                \<and> samples = snd (onDataAll (contentLength res) (Sampler 0 (started res) 0) (chunks res))
                \<and> throttled (started res) 0 samples
                \<and> (calls = map snd samples
                   \<or> calls = map snd samples
                        @ [finalProgress (length (concat (map fst (chunks res)))) (contentLength res)])))"
proof (cases "calls = []")
  case True
  then show ?thesis by simp
next
  case False
  then obtain res where res: "httpStream env url = Some res"
    using call unfolding downloadFileWithProgress_def
    by (auto simp: Let_def split: option.splits)
  define samples where "samples = snd (onDataAll (contentLength res) (Sampler 0 (started res) 0) (chunks res))"
  have t: "throttled (started res) 0 samples"
    unfolding samples_def by (rule onDataAll_throttled) simp
  have shape: "calls = map snd samples
      \<or> calls = map snd samples @ [finalProgress (length (concat (map fst (chunks res)))) (contentLength res)]"
    using call False unfolding downloadFileWithProgress_def samples_def
    by (simp add: res Let_def onDataAll_received split: sum.splits if_splits)
  have "sorted (map downloadedBytes calls)"
    using shape sorted_calls [OF samples_def] by auto
  then show ?thesis
    using res t shape samples_def by blast
qed


theorem progress_sampling_witness:
  "snd (snd (downloadFileWithProgress (serving sampledResponse)
          (js ''https://cdn.example/files/setup.bin'') (js ''/srv/downloads'') True emptyWorld))
     = [\<lparr>downloadedBytes = 4, totalBytes = Some 8, percent = Some 50, rateBps = Some (40 / 3)\<rparr>,
        \<lparr>downloadedBytes = 8, totalBytes = Some 8, percent = Some 100, rateBps = Some 10\<rparr>,
        \<lparr>downloadedBytes = 8, totalBytes = Some 8, percent = Some 100, rateBps = None\<rparr>]
   \<and> sorted (map downloadedBytes (snd (snd (downloadFileWithProgress (serving sampledResponse)
          (js ''https://cdn.example/files/setup.bin'') (js ''/srv/downloads'') True emptyWorld))))
   \<and> throttled 1000 0
        (snd (onDataAll (Some 8) (Sampler 0 1000 0)
           [([1, 2], 1100), ([3, 4], 1300), ([5], 1400), ([6, 7, 8], 1700)]))"
proof -
  obtain r w' calls where call:
    "downloadFileWithProgress (serving sampledResponse)
          (js ''https://cdn.example/files/setup.bin'') (js ''/srv/downloads'') True emptyWorld
       = (r, w', calls)"
    by (rule prod_cases3)
  have calls: "calls =
      [\<lparr>downloadedBytes = 4, totalBytes = Some 8, percent = Some 50, rateBps = Some (40 / 3)\<rparr>,
        \<lparr>downloadedBytes = 8, totalBytes = Some 8, percent = Some 100, rateBps = Some 10\<rparr>,
        \<lparr>downloadedBytes = 8, totalBytes = Some 8, percent = Some 100, rateBps = None\<rparr>]"
    using call by (auto simp add: download_defs sampledResponse_def Let_def)
  have res: "httpStream (serving sampledResponse) (js ''https://cdn.example/files/setup.bin'')
      = Some sampledResponse"
    by (simp add: serving_def)
  from progress_sampling [OF call] show ?thesis
    by (simp add: call calls res) (simp add: sampledResponse_def)
qed




section \<open>Link discovery: what is returned\<close>

lemma map_of_keys: "(map_of m k = None) = (k \<notin> set (map fst m))"
  by (simp add: map_of_eq_None_iff)

lemma dedupLoop_firstByHref:
  "map snd (dedupLoop items acc)
     = map snd acc @ firstByHref (filter (\<lambda>y. href y \<notin> set (map fst acc)) items)"
proof (induction items arbitrary: acc)
  case Nil
  then show ?case by simp
next
  case (Cons it items)
  show ?case
  proof (cases "href it \<in> set (map fst acc)")
    case True
    then show ?thesis
      using Cons.IH [of acc] by (simp add: map_of_keys del: set_map)
  next
    case False
    have "filter (\<lambda>y. href y \<notin> set (map fst (acc @ [(href it, it)]))) items
        = filter (\<lambda>y. href y \<noteq> href it) (filter (\<lambda>y. href y \<notin> set (map fst acc)) items)"
      by (auto intro: filter_cong)
    then show ?thesis
      using False Cons.IH [of "acc @ [(href it, it)]"]
      by (simp add: map_of_keys del: set_map)
  qed
qed

lemma firstByHref_set: "set (firstByHref xs) \<subseteq> set xs"
  by (induction xs rule: firstByHref.induct) auto

lemma firstByHref_hrefs: "set (map href (firstByHref xs)) = set (map href xs)"
  by (induction xs rule: firstByHref.induct) auto

lemma firstByHref_distinct: "distinct (map href (firstByHref xs))"
proof (induction xs rule: firstByHref.induct)
  case 1
  then show ?case by simp
next
  case (2 x xs)
  have "href x \<notin> set (map href (firstByHref (filter (\<lambda>y. href y \<noteq> href x) xs)))"
    by (simp only: firstByHref_hrefs) auto
  then show ?case
    using 2 by simp
qed

lemma firstByHref_subseq: "subseq (firstByHref xs) xs"
proof (induction xs rule: firstByHref.induct)
  case 1
  then show ?case by simp
next
  case (2 x xs)
  have "subseq (filter (\<lambda>y. href y \<noteq> href x) xs) xs"
    by simp
  with 2 have "subseq (firstByHref (filter (\<lambda>y. href y \<noteq> href x) xs)) xs"
    by (rule subseq_order.trans)
  then show ?case
    by simp
qed

lemma find_filter_other:
  "k \<noteq> k' \<Longrightarrow> find (\<lambda>y. href y = k) (filter (\<lambda>y. href y \<noteq> k') xs) = find (\<lambda>y. href y = k) xs"
  by (induction xs) auto

lemma firstByHref_first:
  "r \<in> set (firstByHref xs) \<Longrightarrow> find (\<lambda>y. href y = href r) xs = Some r"
proof (induction xs rule: firstByHref.induct)
  case 1
  then show ?case by simp
next
  case (2 x xs)
  show ?case
  proof (cases "r = x")
    case True
    then show ?thesis by simp
  next
    case False
    with "2.prems" have r: "r \<in> set (firstByHref (filter (\<lambda>y. href y \<noteq> href x) xs))"
      by simp
    then have "r \<in> set (filter (\<lambda>y. href y \<noteq> href x) xs)"
      using firstByHref_set by blast
    then have ne: "href r \<noteq> href x"
      by simp
    from "2.IH" [OF r] have "find (\<lambda>y. href y = href r) xs = Some r"
      by (simp add: find_filter_other [OF ne])
    then show ?thesis
      using ne by auto
  qed
qed

lemma toItems_resolved:
  assumes "list_all (matchesPrefix hrefPrefix) as" and "list_all (resolves env url) as"
  shows "toItems env url as = Inr (map (itemOf env url) as)"
  using assms
  by (induction as) (auto simp: matchesPrefix_def resolves_def itemOf_def split: option.splits)

lemma toItems_unresolved:
  assumes "list_all (matchesPrefix hrefPrefix) as" and "\<not> list_all (resolves env url) as"
  shows "toItems env url as = Inl TypeError"
  using assms
  by (induction as)
    (auto simp: matchesPrefix_def resolves_def split: option.splits sum.splits)

lemma startsWith_nonempty: "hrefPrefix \<noteq> [] \<Longrightarrow> startsWith h hrefPrefix \<Longrightarrow> h \<noteq> []"
  by (auto simp: startsWith_def)

lemmas page_defs =
  getDownloadLinks_def repackPage_def HOST_PREFIX_def matchesPrefix_def startsWith_def
  resolves_def itemOf_def trim_def isWhiteSpace_def isLineTerminator_def js_def emptyWorld_def

text \<open>
  C4, as the claim states it, fails at the edge of the filter: line 97 asks for a truthy
  \<^verbatim>\<open>href\<close> before it asks for the prefix, so with the empty prefix an anchor whose
  \<^verbatim>\<open>href\<close> is the empty string starts with the prefix and is still left out, where
  the stated result has one item for it (the page itself).
\<close>

theorem empty_href_left_out:
  "getDownloadLinks
      (repackPage\<lparr>parseAnchors := \<lambda>d. [\<lparr>attribsHref = Some [], textContent = js ''top''\<rparr>]\<rparr>)
      (js ''https://example.test/repack/'') [] emptyWorld
     = (Inr [], emptyWorld\<lparr>requests := [js ''https://example.test/repack/'']\<rparr>)
   \<and> claimedLinks
       (repackPage\<lparr>parseAnchors := \<lambda>d. [\<lparr>attribsHref = Some [], textContent = js ''top''\<rparr>]\<rparr>)
       (js ''https://example.test/repack/'') []
       [\<lparr>attribsHref = Some [], textContent = js ''top''\<rparr>]
     = [\<lparr>href = js ''https://example.test/repack/'', linkText = js ''top''\<rparr>]"
  by (simp add: page_defs claimedLinks_def)

text \<open>
  C4, amended. For a page that was fetched, take the anchors whose raw \<^verbatim>\<open>href\<close> is
  not empty and starts with the prefix (for a prefix that is not empty these are the
  anchors whose raw \<^verbatim>\<open>href\<close> starts with the prefix, and the result is the stated
  one). When the \<^verbatim>\<open>URL\<close> constructor accepts each of their references against the
  page URL, the call returns their items (the resolved URL, which the constructor makes
  absolute, and the trimmed text) deduplicated by resolved URL: no URL twice, every URL of
  an item present, the items in the order of the page, and for each URL the first item
  that has it. When the constructor rejects one of the references, the call throws.
\<close>

theorem discovered_links:
  assumes page: "httpText env url = Some data"
    and matching: "matching = filter (matchesPrefix hrefPrefix) (parseAnchors env data)"
    and items: "items = map (itemOf env url) matching"
  shows "(list_all (resolves env url) matching \<longrightarrow>
            (\<exists>result.
                getDownloadLinks env url hrefPrefix w
                  = (Inr result, w\<lparr>requests := requests w @ [url]\<rparr>)
                \<and> result = firstByHref items
                \<and> distinct (map href result)
                \<and> subseq result items
                \<and> set (map href result) = set (map href items)
                \<and> (\<forall>r \<in> set result. find (\<lambda>y. href y = href r) items = Some r)))
       \<and> (\<not> list_all (resolves env url) matching \<longrightarrow>
            getDownloadLinks env url hrefPrefix w
              = (Inl TypeError, w\<lparr>requests := requests w @ [url]\<rparr>))
       \<and> (hrefPrefix \<noteq> [] \<longrightarrow>
            matching = filter (\<lambda>a. case attribsHref a of None \<Rightarrow> False
                                     | Some h \<Rightarrow> startsWith h hrefPrefix)
                         (parseAnchors env data)
            \<and> firstByHref items = claimedLinks env url hrefPrefix (parseAnchors env data))"
proof (intro conjI impI)
  have all: "list_all (matchesPrefix hrefPrefix) matching"
    by (simp add: matching list_all_iff)
  {
    assume "list_all (resolves env url) matching"
    with all have t: "toItems env url matching = Inr items"
      unfolding items by (rule toItems_resolved)
    have g: "getDownloadLinks env url hrefPrefix w
        = (Inr (firstByHref items), w\<lparr>requests := requests w @ [url]\<rparr>)"
      using t dedupLoop_firstByHref [of items "[]"]
      by (simp add: getDownloadLinks_def page matching [symmetric])
    show "\<exists>result.
                getDownloadLinks env url hrefPrefix w
                  = (Inr result, w\<lparr>requests := requests w @ [url]\<rparr>)
                \<and> result = firstByHref items
                \<and> distinct (map href result)
                \<and> subseq result items
                \<and> set (map href result) = set (map href items)
                \<and> (\<forall>r \<in> set result. find (\<lambda>y. href y = href r) items = Some r)"
      using g firstByHref_distinct [of items] firstByHref_subseq [of items]
        firstByHref_hrefs [of items] firstByHref_first [of _ items]
      by blast
  }
  {
    assume "\<not> list_all (resolves env url) matching"
    with all have "toItems env url matching = Inl TypeError"
      by (rule toItems_unresolved)
    then show "getDownloadLinks env url hrefPrefix w
              = (Inl TypeError, w\<lparr>requests := requests w @ [url]\<rparr>)"
      by (simp add: getDownloadLinks_def page matching [symmetric])
  }
  {
    assume "hrefPrefix \<noteq> []"
    then show same: "matching = filter (\<lambda>a. case attribsHref a of None \<Rightarrow> False
                                     | Some h \<Rightarrow> startsWith h hrefPrefix)
                         (parseAnchors env data)"
      unfolding matching
      by (auto intro!: filter_cong simp: matchesPrefix_def split: option.splits
          dest: startsWith_nonempty)
    show "firstByHref items = claimedLinks env url hrefPrefix (parseAnchors env data)"
      unfolding claimedLinks_def items by (simp only: same [symmetric])
  }
qed

theorem discovered_links_witness:
  "getDownloadLinks repackPage (js ''https://example.test/repack/'') HOST_PREFIX emptyWorld
     = (Inr [\<lparr>href = js ''https://fuckingfast.co/a'', linkText = js ''Part 1''\<rparr>,
             \<lparr>href = js ''https://fuckingfast.co/b'', linkText = js ''Part 2''\<rparr>],
        emptyWorld\<lparr>requests := [js ''https://example.test/repack/'']\<rparr>)"
proof -
  define matching where
    "matching = filter (matchesPrefix HOST_PREFIX) (parseAnchors repackPage (Text (js ''<html>'')))"
  define items where "items = map (itemOf repackPage (js ''https://example.test/repack/'')) matching"
  have page: "httpText repackPage (js ''https://example.test/repack/'')
      = Some (Text (js ''<html>''))"
    by (simp add: repackPage_def)
  have m: "matching =
        [\<lparr>attribsHref = Some (js ''https://fuckingfast.co/a''), textContent = js '' Part 1 ''\<rparr>,
         \<lparr>attribsHref = Some (js ''https://fuckingfast.co/a''), textContent = js ''Mirror''\<rparr>,
         \<lparr>attribsHref = Some (js ''https://fuckingfast.co/b''), textContent = js ''Part 2''\<rparr>]"
    by (simp add: matching_def page_defs)
  have i: "items =
        [\<lparr>href = js ''https://fuckingfast.co/a'', linkText = js ''Part 1''\<rparr>,
         \<lparr>href = js ''https://fuckingfast.co/a'', linkText = js ''Mirror''\<rparr>,
         \<lparr>href = js ''https://fuckingfast.co/b'', linkText = js ''Part 2''\<rparr>]"
    by (simp add: items_def m) (simp add: page_defs)
  have r: "list_all (resolves repackPage (js ''https://example.test/repack/'')) matching"
    by (simp add: m) (simp add: page_defs)
  have f: "firstByHref items =
        [\<lparr>href = js ''https://fuckingfast.co/a'', linkText = js ''Part 1''\<rparr>,
         \<lparr>href = js ''https://fuckingfast.co/b'', linkText = js ''Part 2''\<rparr>]"
    by (simp add: i) (simp add: js_def)
  from discovered_links [OF page matching_def items_def, of emptyWorld] r f show ?thesis
    by (auto simp: emptyWorld_def)
qed


section \<open>The command line run: counting failures\<close>

lemma requests_download:
  "downloadFileWithProgress env url outputDir onProgress w = (r, w1, calls) \<Longrightarrow>
     requests w1 = requests w @ [url]"
  unfolding downloadFileWithProgress_def ensureDirForFile_def
  by (auto simp: Let_def split: option.splits sum.splits if_splits)

lemma loop_step:
  "\<exists>w1 oc. set (requests w) \<union> {href dLink} \<subseteq> set (requests w1)
     \<and> downloadLoop env outputDir (dLink # rest) (s, f, w)
         = downloadLoop env outputDir rest
             (if oc = Downloaded then s + 1 else s, if oc = Downloaded then f else f + 1, w1)
     \<and> linkOutcomes env outputDir (dLink # rest) w = oc # linkOutcomes env outputDir rest w1"
proof (cases "httpText env (href dLink)")
  case None
  show ?thesis
    by (rule exI [of _ "w\<lparr>requests := requests w @ [href dLink]\<rparr>"],
        rule exI [of _ NestedFetchFailed])
      (simp add: getNestedDownloadLink_def None)
next
  case (Some b)
  show ?thesis
  proof (cases b)
    case Parsed
    show ?thesis
      by (rule exI [of _ "w\<lparr>requests := requests w @ [href dLink]\<rparr>"],
          rule exI [of _ NestedUnreadable])
        (simp add: getNestedDownloadLink_def Some Parsed)
  next
    case (Text data)
    show ?thesis
    proof (cases "firstMatch windowOpenAt data")
      case None
      show ?thesis
        by (rule exI [of _ "w\<lparr>requests := requests w @ [href dLink]\<rparr>"],
            rule exI [of _ NestedNotFound])
          (simp add: getNestedDownloadLink_def Some Text None)
    next
      case found: (Some nLink)
      obtain d w2 calls where dl:
        "downloadFileWithProgress env nLink outputDir True
           (w\<lparr>requests := requests w @ [href dLink]\<rparr>) = (d, w2, calls)"
        by (rule prod_cases3)
      have q: "requests w2 = requests w @ [href dLink] @ [nLink]"
        using requests_download [OF dl] by simp
      show ?thesis
      proof (cases d)
        case (Inl e)
        show ?thesis
          by (rule exI [of _ w2], rule exI [of _ DownloadFailed])
            (auto simp add: getNestedDownloadLink_def downloadWithProgressBar_def Some Text found dl Inl q)
      next
        case (Inr p)
        show ?thesis
          by (rule exI [of _ w2], rule exI [of _ Downloaded])
            (auto simp add: getNestedDownloadLink_def downloadWithProgressBar_def Some Text found dl Inr q)
      qed
    qed
  qed
qed

lemma loop_accounting:
  assumes "downloadLoop env outputDir links (s, f, w) = (s', f', w')"
  shows "s' = s + length (filter (\<lambda>oc. oc = Downloaded) (linkOutcomes env outputDir links w))
       \<and> f' = f + length (filter (\<lambda>oc. oc \<noteq> Downloaded) (linkOutcomes env outputDir links w))
       \<and> length (linkOutcomes env outputDir links w) = length links
       \<and> set (requests w) \<union> set (map href links) \<subseteq> set (requests w')"
  using assms
proof (induction links arbitrary: s f w)
  case Nil
  then show ?case by simp
next
  case (Cons dLink rest)
  from loop_step [of w dLink env outputDir rest s f]
  obtain w1 oc where sub: "set (requests w) \<union> {href dLink} \<subseteq> set (requests w1)"
    and loop: "downloadLoop env outputDir (dLink # rest) (s, f, w)
         = downloadLoop env outputDir rest
             (if oc = Downloaded then s + 1 else s, if oc = Downloaded then f else f + 1, w1)"
    and outs: "linkOutcomes env outputDir (dLink # rest) w
         = oc # linkOutcomes env outputDir rest w1"
    by blast
  from Cons.prems loop
  have "downloadLoop env outputDir rest
          (if oc = Downloaded then s + 1 else s, if oc = Downloaded then f else f + 1, w1)
      = (s', f', w')"
    by simp
  from Cons.IH [OF this] sub show ?case
    by (subst (1 2 3) outs) (cases "oc = Downloaded"; auto)
qed

lemma game_after_selection:
  assumes run: "downloadGame env user url outputDir skipPrompt w
                  = (ending, (successCount, failCount), w')"
    and links: "getDownloadLinks env url HOST_PREFIX w = (Inr dLinks, w1)"
    and chosen: "skipPrompt \<and> sel = dLinks
       \<or> \<not> skipPrompt \<and> dLinks \<noteq> [] \<and> checkbox user dLinks = Some sel
          \<and> confirm user = Some True"
  shows "sel = [] \<and> ending = Exit 0 \<and> successCount = 0 \<and> failCount = 0 \<and> w' = w1
       \<or> sel \<noteq> [] \<and> downloadLoop env outputDir sel (0, 0, w1) = (successCount, failCount, w')
          \<and> ending = (if failCount > 0 then Exit 1 else Returned)"
  using run chosen
  by (auto simp: downloadGame_def links split: if_splits prod.splits)


lemmas cli_defs =
  downloadGame_def getDownloadLinks_def getNestedDownloadLink_def downloadWithProgressBar_def
  windowOpenAt_def isQuote_def cliEnv_def acceptAll_def lastThree_def HOST_PREFIX_def
  matchesPrefix_def startsWith_def trim_def isWhiteSpace_def isLineTerminator_def

text \<open>
  C9. Take any run of \<^verbatim>\<open>downloadGame\<close>. When fetching the links of the page fails,
  the run ends there with exit code 1: nothing but that one request was sent and nothing
  was counted. When the links were fetched and no prompt rejected, the exit status of the
  process is not zero exactly when the failure count is not zero. Take the selected links:
  all the links of the page when the prompts are skipped, and the links the user ticked
  and confirmed otherwise. Every selected link has one outcome, told from the answers of
  the servers and from the download itself: a nested page that cannot be fetched, a
  nested page that is no text, a nested page without a redirect and a download that throws
  each add one to the failure count, a download that returns adds one to the success
  count, and whatever the outcome the loop goes on to the next link, so that the page of
  every selected link is requested. The run then ends with a normal return when nothing
  failed and with exit code 1 otherwise (with exit code 0 when no link was selected).
\<close>

theorem cli_failure_accounting:
  assumes run: "downloadGame env user url outputDir skipPrompt w
                  = (ending, (successCount, failCount), w')"
  shows "(\<forall>e w1. getDownloadLinks env url HOST_PREFIX w = (Inl e, w1) \<longrightarrow>
            ending = Exit 1 \<and> exitStatus ending \<noteq> 0 \<and> w' = w1
            \<and> requests w' = requests w @ [url] \<and> successCount = 0 \<and> failCount = 0)
       \<and> (\<forall>dLinks w1. getDownloadLinks env url HOST_PREFIX w = (Inr dLinks, w1)
              \<and> (\<forall>e. ending \<noteq> Thrown e) \<longrightarrow>
            (exitStatus ending \<noteq> 0) = (failCount \<noteq> 0))
       \<and> (\<forall>dLinks w1 sel. getDownloadLinks env url HOST_PREFIX w = (Inr dLinks, w1)
              \<and> (skipPrompt \<and> sel = dLinks
                 \<or> \<not> skipPrompt \<and> dLinks \<noteq> [] \<and> checkbox user dLinks = Some sel
                    \<and> confirm user = Some True) \<longrightarrow>
            successCount
              = length (filter (\<lambda>oc. oc = Downloaded) (linkOutcomes env outputDir sel w1))
            \<and> failCount
              = length (filter (\<lambda>oc. oc \<noteq> Downloaded) (linkOutcomes env outputDir sel w1))
            \<and> length (linkOutcomes env outputDir sel w1) = length sel
            \<and> set (map href sel) \<subseteq> set (requests w')
            \<and> ending = (if sel = [] then Exit 0 else if failCount = 0 then Returned else Exit 1))
       \<and> (\<forall>links s f w0 s' f' w0'.
            downloadLoop env outputDir links (s, f, w0) = (s', f', w0') \<longrightarrow>
            s' = s + length (filter (\<lambda>oc. oc = Downloaded) (linkOutcomes env outputDir links w0))
            \<and> f' = f + length (filter (\<lambda>oc. oc \<noteq> Downloaded) (linkOutcomes env outputDir links w0))
            \<and> length (linkOutcomes env outputDir links w0) = length links
            \<and> set (map href links) \<subseteq> set (requests w0'))"
proof (intro conjI allI impI)
  fix e w1
  assume g: "getDownloadLinks env url HOST_PREFIX w = (Inl e, w1)"
  then have q: "requests w1 = requests w @ [url]"
    by (auto simp: getDownloadLinks_def Let_def split: option.splits sum.splits)
  from run g q
  show "ending = Exit 1" and "exitStatus ending \<noteq> 0" and "w' = w1"
    and "requests w' = requests w @ [url]" and "successCount = 0" and "failCount = 0"
    by (auto simp: downloadGame_def)
next
  fix dLinks w1
  assume "getDownloadLinks env url HOST_PREFIX w = (Inr dLinks, w1) \<and> (\<forall>e. ending \<noteq> Thrown e)"
  with run show "(exitStatus ending \<noteq> 0) = (failCount \<noteq> 0)"
    by (auto simp: downloadGame_def split: if_splits option.splits prod.splits)
next
  fix dLinks w1 sel
  assume a: "getDownloadLinks env url HOST_PREFIX w = (Inr dLinks, w1)
      \<and> (skipPrompt \<and> sel = dLinks
         \<or> \<not> skipPrompt \<and> dLinks \<noteq> [] \<and> checkbox user dLinks = Some sel
            \<and> confirm user = Some True)"
  have all: "successCount
          = length (filter (\<lambda>oc. oc = Downloaded) (linkOutcomes env outputDir sel w1))
      \<and> failCount
          = length (filter (\<lambda>oc. oc \<noteq> Downloaded) (linkOutcomes env outputDir sel w1))
      \<and> length (linkOutcomes env outputDir sel w1) = length sel
      \<and> set (map href sel) \<subseteq> set (requests w')
      \<and> ending = (if sel = [] then Exit 0 else if failCount = 0 then Returned else Exit 1)"
    using game_after_selection [OF run a [THEN conjunct1] a [THEN conjunct2]]
  proof
    assume "sel = [] \<and> ending = Exit 0 \<and> successCount = 0 \<and> failCount = 0 \<and> w' = w1"
    then show ?thesis
      by simp
  next
    assume l: "sel \<noteq> [] \<and> downloadLoop env outputDir sel (0, 0, w1) = (successCount, failCount, w')
          \<and> ending = (if failCount > 0 then Exit 1 else Returned)"
    from loop_accounting [OF l [THEN conjunct2, THEN conjunct1]] l show ?thesis
      by simp
  qed
  from all show "successCount
          = length (filter (\<lambda>oc. oc = Downloaded) (linkOutcomes env outputDir sel w1))"
    and "failCount
          = length (filter (\<lambda>oc. oc \<noteq> Downloaded) (linkOutcomes env outputDir sel w1))"
    and "length (linkOutcomes env outputDir sel w1) = length sel"
    and "set (map href sel) \<subseteq> set (requests w')"
    and "ending = (if sel = [] then Exit 0 else if failCount = 0 then Returned else Exit 1)"
    by simp_all
next
  fix links s f w0 s' f' w0'
  assume "downloadLoop env outputDir links (s, f, w0) = (s', f', w0')"
  from loop_accounting [OF this]
  show "s' = s + length (filter (\<lambda>oc. oc = Downloaded) (linkOutcomes env outputDir links w0))"
    and "f' = f + length (filter (\<lambda>oc. oc \<noteq> Downloaded) (linkOutcomes env outputDir links w0))"
    and "length (linkOutcomes env outputDir links w0) = length links"
    and "set (map href links) \<subseteq> set (requests w0')"
    by simp_all
qed

theorem cli_failure_accounting_witness:
  "fst (downloadGame cliEnv acceptAll (js ''https://example.test/repack/'')
          (js ''/srv/downloads'') True emptyWorld) = Exit 1
   \<and> fst (snd (downloadGame cliEnv acceptAll (js ''https://example.test/repack/'')
          (js ''/srv/downloads'') True emptyWorld)) = (1, 4)
   \<and> linkOutcomes cliEnv (js ''/srv/downloads'')
        [\<lparr>href = js ''https://fuckingfast.co/a'', linkText = js ''Part 1''\<rparr>,
         \<lparr>href = js ''https://fuckingfast.co/b'', linkText = js ''Part 2''\<rparr>,
         \<lparr>href = js ''https://fuckingfast.co/c'', linkText = js ''Part 3''\<rparr>,
         \<lparr>href = js ''https://fuckingfast.co/d'', linkText = js ''Part 4''\<rparr>,
         \<lparr>href = js ''https://fuckingfast.co/e'', linkText = js ''Part 5''\<rparr>]
        (emptyWorld\<lparr>requests := [js ''https://example.test/repack/'']\<rparr>)
     = [NestedFetchFailed, NestedNotFound, Downloaded, DownloadFailed, NestedUnreadable]
   \<and> fst (downloadGame cliEnv lastThree (js ''https://example.test/repack/'')
          (js ''/srv/downloads'') False emptyWorld) = Exit 1
   \<and> fst (snd (downloadGame cliEnv lastThree (js ''https://example.test/repack/'')
          (js ''/srv/downloads'') False emptyWorld)) = (1, 2)
   \<and> linkOutcomes cliEnv (js ''/srv/downloads'')
        [\<lparr>href = js ''https://fuckingfast.co/c'', linkText = js ''Part 3''\<rparr>,
         \<lparr>href = js ''https://fuckingfast.co/d'', linkText = js ''Part 4''\<rparr>,
         \<lparr>href = js ''https://fuckingfast.co/e'', linkText = js ''Part 5''\<rparr>]
        (emptyWorld\<lparr>requests := [js ''https://example.test/repack/'']\<rparr>)
     = [Downloaded, DownloadFailed, NestedUnreadable]
   \<and> downloadGame cliEnv acceptAll (js ''https://example.test/missing/'') (js ''/srv/downloads'')
       True emptyWorld
     = (Exit 1, (0, 0), emptyWorld\<lparr>requests := [js ''https://example.test/missing/'']\<rparr>)
   \<and> fst (downloadGame
          (cliEnv\<lparr>parseAnchors := \<lambda>d.
             [\<lparr>attribsHref = Some (js ''https://fuckingfast.co/c''), textContent = js ''Part 3''\<rparr>]\<rparr>)
          lastThree (js ''https://example.test/repack/'') (js ''/srv/downloads'') True emptyWorld)
     = Returned"
proof -
  define five where "five =
        [\<lparr>href = js ''https://fuckingfast.co/a'', linkText = js ''Part 1''\<rparr>,
         \<lparr>href = js ''https://fuckingfast.co/b'', linkText = js ''Part 2''\<rparr>,
         \<lparr>href = js ''https://fuckingfast.co/c'', linkText = js ''Part 3''\<rparr>,
         \<lparr>href = js ''https://fuckingfast.co/d'', linkText = js ''Part 4''\<rparr>,
         \<lparr>href = js ''https://fuckingfast.co/e'', linkText = js ''Part 5''\<rparr>]"
  define three where "three =
        [\<lparr>href = js ''https://fuckingfast.co/c'', linkText = js ''Part 3''\<rparr>,
         \<lparr>href = js ''https://fuckingfast.co/d'', linkText = js ''Part 4''\<rparr>,
         \<lparr>href = js ''https://fuckingfast.co/e'', linkText = js ''Part 5''\<rparr>]"
  define asked where "asked = emptyWorld\<lparr>requests := [js ''https://example.test/repack/'']\<rparr>"
  have g: "getDownloadLinks cliEnv (js ''https://example.test/repack/'') HOST_PREFIX emptyWorld
      = (Inr five, asked)"
    by (simp add: cli_defs emptyWorld_def js_def five_def asked_def)
  have outs: "linkOutcomes cliEnv (js ''/srv/downloads'') five asked
     = [NestedFetchFailed, NestedNotFound, Downloaded, DownloadFailed, NestedUnreadable]"
    by (simp add: five_def asked_def cli_defs download_defs Let_def)
  have outs3: "linkOutcomes cliEnv (js ''/srv/downloads'') three asked
     = [Downloaded, DownloadFailed, NestedUnreadable]"
    by (simp add: three_def asked_def cli_defs download_defs Let_def)
  obtain ending counts w' where all0:
    "downloadGame cliEnv acceptAll (js ''https://example.test/repack/'') (js ''/srv/downloads'')
       True emptyWorld = (ending, counts, w')"
    by (rule prod_cases3)
  obtain successCount failCount where counts: "counts = (successCount, failCount)"
    by (cases counts)
  note all = all0 [unfolded counts]
  have chosen: "True \<and> five = five
      \<or> \<not> True \<and> five \<noteq> [] \<and> checkbox acceptAll five = Some five \<and> confirm acceptAll = Some True"
    by simp
  note counted = cli_failure_accounting [OF all, THEN conjunct2, THEN conjunct2, THEN conjunct1,
      rule_format, OF conjI, OF g chosen]
  have first: "ending = Exit 1 \<and> counts = (1, 4)"
    using counted by (simp add: outs counts) (simp add: five_def)
  obtain ending3 counts3 w3 where some0:
    "downloadGame cliEnv lastThree (js ''https://example.test/repack/'') (js ''/srv/downloads'')
       False emptyWorld = (ending3, counts3, w3)"
    by (rule prod_cases3)
  obtain successCount3 failCount3 where counts3: "counts3 = (successCount3, failCount3)"
    by (cases counts3)
  note some = some0 [unfolded counts3]
  have chosen3: "False \<and> three = five
      \<or> \<not> False \<and> five \<noteq> [] \<and> checkbox lastThree five = Some three
         \<and> confirm lastThree = Some True"
    by (simp add: five_def three_def lastThree_def)
  note counted3 = cli_failure_accounting [OF some, THEN conjunct2, THEN conjunct2, THEN conjunct1,
      rule_format, OF conjI, OF g chosen3]
  have second: "ending3 = Exit 1 \<and> counts3 = (1, 2)"
    using counted3 by (simp add: outs3 counts3) (simp add: three_def)
  have missing: "getDownloadLinks cliEnv (js ''https://example.test/missing/'') HOST_PREFIX emptyWorld
      = (Inl FetchError, emptyWorld\<lparr>requests := [js ''https://example.test/missing/'']\<rparr>)"
    by (simp add: cli_defs emptyWorld_def js_def)
  obtain ending0 counts0 w0 where fatal0:
    "downloadGame cliEnv acceptAll (js ''https://example.test/missing/'') (js ''/srv/downloads'')
       True emptyWorld = (ending0, counts0, w0)"
    by (rule prod_cases3)
  obtain successCount0 failCount0 where counts0: "counts0 = (successCount0, failCount0)"
    by (cases counts0)
  note fatal = fatal0 [unfolded counts0]
  note stopped = cli_failure_accounting [OF fatal, THEN conjunct1, rule_format, OF missing]
  have stop:
    "downloadGame cliEnv acceptAll (js ''https://example.test/missing/'') (js ''/srv/downloads'')
       True emptyWorld
     = (Exit 1, (0, 0), emptyWorld\<lparr>requests := [js ''https://example.test/missing/'']\<rparr>)"
    using stopped by (simp only: fatal)
  have clean: "fst (downloadGame
          (cliEnv\<lparr>parseAnchors := \<lambda>d.
             [\<lparr>attribsHref = Some (js ''https://fuckingfast.co/c''), textContent = js ''Part 3''\<rparr>]\<rparr>)
          lastThree (js ''https://example.test/repack/'') (js ''/srv/downloads'') True emptyWorld)
     = Returned"
    by (simp add: cli_defs download_defs Let_def)
  have a: "fst (downloadGame cliEnv acceptAll (js ''https://example.test/repack/'')
          (js ''/srv/downloads'') True emptyWorld) = Exit 1"
    and b: "fst (snd (downloadGame cliEnv acceptAll (js ''https://example.test/repack/'')
          (js ''/srv/downloads'') True emptyWorld)) = (1, 4)"
    using first by (simp_all add: all0)
  have c: "fst (downloadGame cliEnv lastThree (js ''https://example.test/repack/'')
          (js ''/srv/downloads'') False emptyWorld) = Exit 1"
    and d: "fst (snd (downloadGame cliEnv lastThree (js ''https://example.test/repack/'')
          (js ''/srv/downloads'') False emptyWorld)) = (1, 2)"
    using second by (simp_all add: some0)
  show ?thesis
    by (intro conjI) (rule a, rule b, rule outs [unfolded five_def asked_def], rule c, rule d,
      rule outs3 [unfolded three_def asked_def], rule stop, rule clean)
qed

end
